theory Spec2Isabelle
  imports Complex_Main "HOL-Library.AList"
begin

section \<open>Counter-pick scoring: the embedded program\<close>

text \<open>
  The program is the draft page of the front end (\<^verbatim>\<open>frontend/src/pages/DraftPage.tsx\<close>),
  the scoring module of its predecessor (\<^verbatim>\<open>frontend_old/src/logic.ts\<close>) and the
  predecessor's server (\<^verbatim>\<open>loadData\<close>).

  Conventions of the embedding.
  \<^item> A JavaScript \<^verbatim>\<open>number\<close> is a \<^typ>\<open>real\<close>: arithmetic is exact, and there is no
    NaN, no infinity and no rounding.
  \<^item> An object used as a dictionary whose iteration order matters
    (\<^verbatim>\<open>Object.entries(data)\<close>, \<^verbatim>\<open>Object.keys(data)\<close>) is the association list of its
    entries in iteration order, so its keys are distinct; an assignment \<^verbatim>\<open>acc[k] = v\<close> is
    \<^const>\<open>AList.update\<close> (an existing key keeps its place, a new key goes last, which is
    JavaScript's order for keys that are not array indices, as hero slugs are). A
    dictionary that is only looked up is a map.
  \<^item> The scoring pass and the role filter are modelled on values of their declared
    TypeScript types (a winrate is a number); the loaders are modelled on whatever JSON
    the files hold.
  \<^item> \<^verbatim>\<open>null\<close> and \<^verbatim>\<open>undefined\<close> are \<^const>\<open>None\<close>.
  \<^item> Field names are the source's; where two object types share a field name the later
    one carries a prefix (\<open>pick_hero\<close>, \<open>o_winrate\<close>, \<open>raw_hero\<close>).
\<close>

subsection \<open>Types of DraftPage.tsx\<close>

record Hero =
  slug :: string
  name :: string
  image :: string

record EnemyPick =
  pick_hero :: "Hero option"
  weight :: real

record PerEnemy =
  enemy :: string
  winrate :: "real option"

record CounterResult =
  hero :: string
  combined :: real
  perEnemy :: "PerEnemy list"

text \<open>\<^verbatim>\<open>Record<string, Record<string, number>>\<close>, as \<^verbatim>\<open>Object.entries\<close> lists it.\<close>

type_synonym oppMap = "string \<rightharpoonup> real"
type_synonym matchupData = "(string \<times> oppMap) list"

subsection \<open>clamp, pctToLogOdds, logOddsToPct\<close>

definition clamp :: "real \<Rightarrow> real \<Rightarrow> real \<Rightarrow> real" where
  "clamp x lo hi = max lo (min hi x)"

definition pctToLogOdds :: "real \<Rightarrow> real" where
  "pctToLogOdds pct = (let p = clamp (pct / 100) 0.005 0.995 in ln (p / (1 - p)))"

definition logOddsToPct :: "real \<Rightarrow> real" where
  "logOddsToPct lo = (let p = 1 / (1 + exp (- lo)) in 100 * p)"

subsection \<open>DraftPage: the selected slugs\<close>

text \<open>
  \<^verbatim>\<open>enemyPicks.map((p) => p.hero?.slug).filter(Boolean)\<close>: an empty slot gives
  \<^verbatim>\<open>undefined\<close>, and \<^verbatim>\<open>filter(Boolean)\<close> drops it, as it drops the empty string.
\<close>

definition selectedEnemySlugs :: "EnemyPick list \<Rightarrow> string list" where
  "selectedEnemySlugs enemyPicks =
     List.map_filter
       (\<lambda>p. case pick_hero p of
              None \<Rightarrow> None
            | Some h \<Rightarrow> (if slug h = [] then None else Some (slug h)))
       enemyPicks"

subsection \<open>useCounterResults: the scoring pass\<close>

text \<open>
  \<^verbatim>\<open>enemyPicks.filter((p) => p.hero).map((p) => ({ enemy: p.hero.slug, weight: p.weight }))\<close>;
  an entry of \<^verbatim>\<open>enemies\<close> is the pair of its two fields.
\<close>

definition enemiesOf :: "EnemyPick list \<Rightarrow> (string \<times> real) list" where
  "enemiesOf enemyPicks =
     map (\<lambda>p. (slug (the (pick_hero p)), weight p))
       (filter (\<lambda>p. pick_hero p \<noteq> None) enemyPicks)"

text \<open>
  The inner loop \<^verbatim>\<open>for (const { enemy, weight } of enemies)\<close>, with its three
  accumulators \<^verbatim>\<open>weightedSum\<close>, \<^verbatim>\<open>weightTotal\<close> and \<^verbatim>\<open>perEnemy\<close>.
\<close>

fun scoreEnemies ::
  "oppMap \<Rightarrow> (string \<times> real) list \<Rightarrow> real \<times> real \<times> PerEnemy list \<Rightarrow> real \<times> real \<times> PerEnemy list"
where
  "scoreEnemies oppMap [] acc = acc"
| "scoreEnemies oppMap ((e, w) # rest) (weightedSum, weightTotal, pe) =
     (case oppMap e of
        None \<Rightarrow>
          scoreEnemies oppMap rest
            (weightedSum, weightTotal, pe @ [\<lparr>enemy = e, winrate = None\<rparr>])
      | Some wr \<Rightarrow>
          scoreEnemies oppMap rest
            (weightedSum + w * pctToLogOdds wr, weightTotal + w,
             pe @ [\<lparr>enemy = e, winrate = Some wr\<rparr>]))"

text \<open>
  The outer loop \<^verbatim>\<open>for (const [hero, oppMap] of Object.entries(data))\<close>, with the
  accumulator \<^verbatim>\<open>out\<close>; each \<^verbatim>\<open>continue\<close> is a recursive call that leaves \<open>out\<close> as
  it is.
\<close>

fun scoreEntries ::
  "(string \<times> real) list \<Rightarrow> matchupData \<Rightarrow> CounterResult list \<Rightarrow> CounterResult list"
where
  "scoreEntries enemies [] out = out"
| "scoreEntries enemies ((h, oppMap) # rest) out =
     (if h \<in> set (map fst enemies) then scoreEntries enemies rest out
      else
        (case scoreEnemies oppMap enemies (0, 0, []) of
           (weightedSum, weightTotal, pe) \<Rightarrow>
             if weightTotal \<le> 0 then scoreEntries enemies rest out
             else
               scoreEntries enemies rest
                 (out @ [\<lparr>hero = h,
                          combined = logOddsToPct (weightedSum / weightTotal),
                          perEnemy = pe\<rparr>])))"

text \<open>
  The body of the \<^verbatim>\<open>useMemo\<close>. \<^verbatim>\<open>out.sort((a, b) => b.combined - a.combined)\<close> is a
  stable sort by descending \<open>combined\<close>; \<^const>\<open>sort_key\<close> is the stable insertion
  sort, here on the negated score.
\<close>

definition counterResults ::
  "matchupData \<Rightarrow> string list \<Rightarrow> EnemyPick list \<Rightarrow> CounterResult list"
where
  "counterResults data enemySlugs enemyPicks =
     (if enemySlugs = [] then []
      else sort_key (\<lambda>r. - combined r) (scoreEntries (enemiesOf enemyPicks) data []))"

text \<open>
  \<^verbatim>\<open>useCounterResults(patch, selectedEnemySlugs, enemyPicks)\<close> as the page calls it, on
  the loaded \<open>data\<close>.
\<close>

definition candidateResults :: "matchupData \<Rightarrow> EnemyPick list \<Rightarrow> CounterResult list" where
  "candidateResults data enemyPicks =
     counterResults data (selectedEnemySlugs enemyPicks) enemyPicks"

subsection \<open>ResultsTable: the role filter\<close>

definition ALL_ROLES :: "string list" where
  "ALL_ROLES = [''carry'', ''mid'', ''offlane'', ''support'', ''hard support'']"

definition isFilteringActive :: "string list \<Rightarrow> bool" where
  "isFilteringActive selectedRoles =
     (length selectedRoles > 0 \<and> length selectedRoles < length ALL_ROLES)"

text \<open>The three ways the component changes \<^verbatim>\<open>selectedRoles\<close>; its first value is \<open>ALL_ROLES\<close>.\<close>

definition toggleRole :: "string \<Rightarrow> string list \<Rightarrow> string list" where
  "toggleRole role prev =
     (if role \<in> set prev then filter (\<lambda>r. r \<noteq> role) prev else prev @ [role])"

definition setAll :: "string list" where
  "setAll = ALL_ROLES"

definition clearAll :: "string list" where
  "clearAll = []"

text \<open>
  \<^verbatim>\<open>displayedResults\<close>: \<^verbatim>\<open>rolesByHero[r.hero] || []\<close> is the empty list for a hero the
  role map does not have.
\<close>

definition displayedResults ::
  "CounterResult list \<Rightarrow> (string \<rightharpoonup> string list) \<Rightarrow> string list \<Rightarrow> CounterResult list"
where
  "displayedResults results rolesByHero selectedRoles =
     (if \<not> isFilteringActive selectedRoles then results
      else
        filter
          (\<lambda>r. let roles = (case rolesByHero (hero r) of None \<Rightarrow> [] | Some rs \<Rightarrow> rs)
               in if roles = [] then False
                  else list_ex (\<lambda>role. role \<in> set selectedRoles) roles)
          results)"

subsection \<open>useCounterResults: loading the matchup files\<close>

text \<open>
  A parsed JSON value, which is what \<^verbatim>\<open>r.json()\<close> gives: the type annotation
  \<^verbatim>\<open>(MatchupFile | null)[]\<close> is not checked when the code runs. An object is the list of
  its entries.
\<close>

datatype json =
  JNull
| JBool bool
| JNum real
| JStr string
| JArr "json list"
| JObj "(string \<times> json) list"

text \<open>The truth value of a JSON value, as \<^verbatim>\<open>!f\<close> tests it.\<close>

fun truthy :: "json \<Rightarrow> bool" where
  "truthy JNull = False"
| "truthy (JBool b) = b"
| "truthy (JNum x) = (x \<noteq> 0)"
| "truthy (JStr s) = (s \<noteq> [])"
| "truthy (JArr xs) = True"
| "truthy (JObj kvs) = True"

text \<open>
  Reading one of the properties \<^verbatim>\<open>hero\<close>, \<^verbatim>\<open>matchups\<close>, \<^verbatim>\<open>opponent\<close>, \<^verbatim>\<open>winrate\<close>: an
  object gives the value it has under the key, and \<^verbatim>\<open>undefined\<close> (\<open>None\<close>) otherwise;
  a string, a number, a boolean and an array have none of these properties. Reading a
  property of \<^verbatim>\<open>null\<close> throws; every read of the code below is followed by a step that
  throws the same \<^verbatim>\<open>TypeError\<close> on \<^verbatim>\<open>undefined\<close>, so \<open>None\<close> stands for both.
\<close>

fun getProp :: "json \<Rightarrow> string \<Rightarrow> json option" where
  "getProp (JObj kvs) k = map_of kvs k"
| "getProp j k = None"

datatype jsError = TypeError

text \<open>
  The values \<^verbatim>\<open>for (const m of v)\<close> iterates: the elements of an array, the characters
  of a string; anything else, \<^verbatim>\<open>undefined\<close> included, is not iterable and throws.
\<close>

fun iterate :: "json option \<Rightarrow> jsError + json list" where
  "iterate (Some (JArr xs)) = Inr xs"
| "iterate (Some (JStr s)) = Inr (map (\<lambda>c. JStr [c]) s)"
| "iterate v = Inl TypeError"

text \<open>
  A settled promise. \<^verbatim>\<open>fetch(url).then((r) => r.json())\<close> is rejected when the request
  fails or the body is not JSON; \<^verbatim>\<open>.catch(() => null)\<close> turns a rejection into the
  value \<^verbatim>\<open>null\<close>; \<^verbatim>\<open>Promise.all\<close> is rejected as soon as one of its promises is;
  \<^verbatim>\<open>.then(f)\<close> applies \<open>f\<close> to the value of a fulfilled promise and is rejected when
  \<open>f\<close> throws.
\<close>

datatype 'a promise = Rejected | Resolved 'a

definition catchNull :: "json promise \<Rightarrow> json promise" where
  "catchNull p = (case p of Rejected \<Rightarrow> Resolved JNull | Resolved v \<Rightarrow> Resolved v)"

fun promiseAll :: "'a promise list \<Rightarrow> 'a list promise" where
  "promiseAll [] = Resolved []"
| "promiseAll (Rejected # ps) = Rejected"
| "promiseAll (Resolved v # ps) =
     (case promiseAll ps of Rejected \<Rightarrow> Rejected | Resolved vs \<Rightarrow> Resolved (v # vs))"

definition thenP :: "'a promise \<Rightarrow> ('a \<Rightarrow> jsError + 'b) \<Rightarrow> 'b promise" where
  "thenP p f =
     (case p of
        Rejected \<Rightarrow> Rejected
      | Resolved v \<Rightarrow> (case f v of Inl e \<Rightarrow> Rejected | Inr y \<Rightarrow> Resolved y))"

text \<open>\<^verbatim>\<open>String.prototype.toLowerCase\<close> on the ASCII letters; any other byte is kept.\<close>

definition toLowerCaseChar :: "char \<Rightarrow> char" where
  "toLowerCaseChar c =
     (let n = (of_char c :: nat) in if 65 \<le> n \<and> n \<le> 90 then char_of (n + 32) else c)"

definition toLowerCase :: "string \<Rightarrow> string" where
  "toLowerCase s = map toLowerCaseChar s"

text \<open>
  The object \<^verbatim>\<open>map\<close> of one file, as it is looked up: a key whose value is
  \<^verbatim>\<open>undefined\<close> reads like a key that is not there.
\<close>

type_synonym rawMap = "string \<rightharpoonup> json"
type_synonym rawData = "(string \<times> rawMap) list"

text \<open>
  \<^verbatim>\<open>for (const m of f.matchups) map[m.opponent.toLowerCase()] = m.winrate\<close>:
  \<^verbatim>\<open>m.opponent.toLowerCase()\<close> throws unless \<^verbatim>\<open>m.opponent\<close> is a string.
\<close>

fun buildMap :: "json list \<Rightarrow> rawMap \<Rightarrow> jsError + rawMap" where
  "buildMap [] mp = Inr mp"
| "buildMap (m # ms) mp =
     (case getProp m ''opponent'' of
        Some (JStr s) \<Rightarrow> buildMap ms (mp(toLowerCase s := getProp m ''winrate''))
      | _ \<Rightarrow> Inl TypeError)"

text \<open>
  \<^verbatim>\<open>for (const f of files) { if (!f) continue; ...; acc[f.hero.toLowerCase()] = map }\<close>:
  the loop over the matchups throws unless \<^verbatim>\<open>f.matchups\<close> is iterable, and
  \<^verbatim>\<open>f.hero.toLowerCase()\<close> throws unless \<^verbatim>\<open>f.hero\<close> is a string. The first throw ends
  the callback.
\<close>

fun buildAcc :: "json list \<Rightarrow> rawData \<Rightarrow> jsError + rawData" where
  "buildAcc [] acc = Inr acc"
| "buildAcc (f # fs) acc =
     (if \<not> truthy f then buildAcc fs acc
      else
        (case iterate (getProp f ''matchups'') of
           Inl e \<Rightarrow> Inl e
         | Inr ms \<Rightarrow>
             (case buildMap ms Map.empty of
                Inl e \<Rightarrow> Inl e
              | Inr mp \<Rightarrow>
                  (case getProp f ''hero'' of
                     Some (JStr h) \<Rightarrow> buildAcc fs (AList.update (toLowerCase h) mp acc)
                   | _ \<Rightarrow> Inl TypeError))))"

text \<open>
  The effect for one patch: \<open>fetchJson slug\<close> is how
  \<^verbatim>\<open>fetch(`${base}/${slug}.json`).then((r) => r.json())\<close> settles, \<open>heroSlugs\<close> is the
  list the page iterates (its constant \<^verbatim>\<open>heroesIndexCache\<close>), and the value of the
  fulfilled result is what \<^verbatim>\<open>setData\<close> receives. The chain has no \<^verbatim>\<open>catch\<close> after
  \<^verbatim>\<open>Promise.all\<close>: when the callback throws, the result is rejected and \<^verbatim>\<open>setData\<close> is
  not called.
\<close>

definition loadMatchups :: "(string \<Rightarrow> json promise) \<Rightarrow> string list \<Rightarrow> rawData promise" where
  "loadMatchups fetchJson heroSlugs =
     thenP (promiseAll (map (\<lambda>slug. catchNull (fetchJson slug)) heroSlugs))
       (\<lambda>files. buildAcc files [])"

subsection \<open>The predecessor: logic.ts\<close>

record OppRec =
  o_winrate :: real
  matches :: real

record HeroData =
  opponents :: "string \<rightharpoonup> OppRec"
  totalMatches :: real

text \<open>\<^verbatim>\<open>DataV2\<close>, as \<^verbatim>\<open>Object.keys\<close> lists it.\<close>

type_synonym dataV2 = "(string \<times> HeroData) list"

text \<open>The result rows of \<^verbatim>\<open>scoreCandidates\<close> have one more field.\<close>

record ScoredCandidate = CounterResult +
  matchShare :: real

text \<open>
  The inner loop of \<^verbatim>\<open>scoreCandidates\<close>, with \<^verbatim>\<open>lsum\<close>, \<^verbatim>\<open>wsum\<close> and
  \<^verbatim>\<open>perEnemy\<close>; an entry of \<^verbatim>\<open>enemies\<close> is the pair of \<^verbatim>\<open>slug\<close> and \<^verbatim>\<open>weight\<close>.
\<close>

fun sumEnemies ::
  "(string \<rightharpoonup> OppRec) \<Rightarrow> (string \<times> real) list \<Rightarrow> real \<times> real \<times> PerEnemy list \<Rightarrow> real \<times> real \<times> PerEnemy list"
where
  "sumEnemies oppMap [] acc = acc"
| "sumEnemies oppMap ((s, w) # rest) (lsum, wsum, pe) =
     (case oppMap s of
        None \<Rightarrow> sumEnemies oppMap rest (lsum, wsum, pe @ [\<lparr>enemy = s, winrate = None\<rparr>])
      | Some rec \<Rightarrow>
          (let win01 = clamp (o_winrate rec / 100) 0 1
           in sumEnemies oppMap rest
                (lsum + w * win01, wsum + w,
                 pe @ [\<lparr>enemy = s, winrate = Some (o_winrate rec)\<rparr>])))"

text \<open>
  The outer loop \<^verbatim>\<open>for (const hero of Object.keys(data))\<close>;
  \<^verbatim>\<open>data[hero]?.opponents || {}\<close> is the lookup. (\<^verbatim>\<open>totalMatches\<close> is computed and
  never used.)
\<close>

fun scoreKeys ::
  "dataV2 \<Rightarrow> (string \<times> real) list \<Rightarrow> string list \<Rightarrow> ScoredCandidate list \<Rightarrow> ScoredCandidate list"
where
  "scoreKeys data enemies [] results = results"
| "scoreKeys data enemies (h # rest) results =
     (if h \<in> set (map fst enemies) then scoreKeys data enemies rest results
      else
        (let oppMap = (case map_of data h of None \<Rightarrow> Map.empty | Some d \<Rightarrow> opponents d)
         in case sumEnemies oppMap enemies (0, 0, []) of
           (lsum, wsum, pe) \<Rightarrow>
             if wsum \<le> 0 then scoreKeys data enemies rest results
             else
               (let combined01 = lsum / wsum; r = 0; finalPct = 100 * combined01
                in scoreKeys data enemies rest
                     (results @ [\<lparr>hero = h, combined = finalPct, perEnemy = pe,
                                  matchShare = r\<rparr>]))))"

definition scoreCandidates :: "dataV2 \<Rightarrow> (string \<times> real) list \<Rightarrow> ScoredCandidate list" where
  "scoreCandidates data enemies =
     sort_key (\<lambda>r. - combined r) (scoreKeys data enemies (map fst data) [])"

subsection \<open>The predecessor's server: loadData\<close>

text \<open>
  What the \<^verbatim>\<open>try\<close> block reads of one file. \<open>readJson file\<close> is \<open>None\<close> when reading the
  file, \<^verbatim>\<open>JSON.parse\<close> or walking the parsed object throws: the \<^verbatim>\<open>catch\<close> then skips the
  file, and nothing of it has reached \<^verbatim>\<open>data\<close>, which is assigned last. Otherwise
  \<open>raw_hero\<close> is \<^verbatim>\<open>String(obj.hero)\<close> unless \<^verbatim>\<open>obj.hero\<close> is falsy, \<open>raw_matchups\<close> is
  \<^verbatim>\<open>obj.matchups || []\<close>, \<open>raw_opponent\<close> is \<^verbatim>\<open>String(m.opponent)\<close> unless \<^verbatim>\<open>m.opponent\<close> is
  falsy, and \<open>raw_winrate\<close> and \<open>raw_matches\<close> are the fields that are numbers.
\<close>

record RawMatchup =
  raw_opponent :: "string option"
  raw_winrate :: "real option"
  raw_matches :: "real option"

record RawFile =
  raw_hero :: "string option"
  raw_matchups :: "RawMatchup list"

definition endsWith :: "string \<Rightarrow> string \<Rightarrow> bool" where
  "endsWith s suffix =
     (length suffix \<le> length s \<and> drop (length s - length suffix) s = suffix)"

text \<open>
  \<^verbatim>\<open>path.basename(file, ext)\<close> for a file name without directory separators, as
  \<^verbatim>\<open>readdir\<close> gives them, and an extension that is not empty: the name without the
  extension when it ends with it (the empty string when the name is the extension).
\<close>

definition basename :: "string \<Rightarrow> string \<Rightarrow> string" where
  "basename file ext =
     (if endsWith file ext then take (length file - length ext) file else file)"

text \<open>
  The loop over the matchups, with \<^verbatim>\<open>opponents\<close> (an object, here the list of its
  entries) and \<^verbatim>\<open>totalMatches\<close>.
\<close>

fun readMatchups ::
  "RawMatchup list \<Rightarrow> (string \<times> OppRec) list \<times> real \<Rightarrow> (string \<times> OppRec) list \<times> real"
where
  "readMatchups [] acc = acc"
| "readMatchups (m # ms) (opps, tot) =
     (let opp = toLowerCase (case raw_opponent m of None \<Rightarrow> [] | Some s \<Rightarrow> s)
      in if opp = [] then readMatchups ms (opps, tot)
         else
           (case raw_winrate m of
              None \<Rightarrow> readMatchups ms (opps, tot)
            | Some wr \<Rightarrow>
                (case raw_matches m of
                   None \<Rightarrow> readMatchups ms (opps, tot)
                 | Some mt \<Rightarrow>
                     readMatchups ms
                       (AList.update opp \<lparr>o_winrate = wr, matches = mt\<rparr> opps, tot + mt))))"

text \<open>The loop over the files of the directory, with \<^verbatim>\<open>data\<close>.\<close>

fun loadFiles :: "(string \<Rightarrow> RawFile option) \<Rightarrow> string list \<Rightarrow> dataV2 \<Rightarrow> dataV2" where
  "loadFiles readJson [] data = data"
| "loadFiles readJson (file # files) data =
     (if \<not> endsWith file ''.json'' then loadFiles readJson files data
      else
        (case readJson file of
           None \<Rightarrow> loadFiles readJson files data
         | Some obj \<Rightarrow>
             (let h = toLowerCase
                        (case raw_hero obj of None \<Rightarrow> basename file ''.json'' | Some s \<Rightarrow> s)
              in case readMatchups (raw_matchups obj) ([], 0) of
                   (opps, tot) \<Rightarrow>
                     if opps \<noteq> [] then
                       loadFiles readJson files
                         (AList.update h \<lparr>opponents = map_of opps, totalMatches = tot\<rparr> data)
                     else loadFiles readJson files data)))"

text \<open>
  \<^verbatim>\<open>loadData\<close>: \<open>readdir\<close> is how \<^verbatim>\<open>fs.readdir(dir)\<close> settles, and a rejection is caught
  as the empty list. No statement of the function can throw outside the \<^verbatim>\<open>try\<close>, so
  its promise is fulfilled.
\<close>

definition loadData :: "string list promise \<Rightarrow> (string \<Rightarrow> RawFile option) \<Rightarrow> dataV2 promise" where
  "loadData readdir readJson =
     Resolved
       (loadFiles readJson (case readdir of Rejected \<Rightarrow> [] | Resolved files \<Rightarrow> files) [])"

section \<open>Notions of the statements\<close>

subsection \<open>One pass of each outer loop\<close>

text \<open>What one turn of the loop over \<^verbatim>\<open>Object.entries(data)\<close> adds to \<^verbatim>\<open>out\<close>.\<close>

definition candidate :: "(string \<times> real) list \<Rightarrow> string \<times> oppMap \<Rightarrow> CounterResult option" where
  "candidate enemies entry =
     (if fst entry \<in> set (map fst enemies) then None
      else
        (case scoreEnemies (snd entry) enemies (0, 0, []) of
           (weightedSum, weightTotal, pe) \<Rightarrow>
             if weightTotal \<le> 0 then None
             else Some \<lparr>hero = fst entry,
                        combined = logOddsToPct (weightedSum / weightTotal),
                        perEnemy = pe\<rparr>))"

text \<open>The value of \<^verbatim>\<open>weightTotal\<close> when the inner loop ends.\<close>

definition weightTotalOf :: "oppMap \<Rightarrow> (string \<times> real) list \<Rightarrow> real" where
  "weightTotalOf m enemies = fst (snd (scoreEnemies m enemies (0, 0, [])))"

text \<open>The same for \<^verbatim>\<open>scoreCandidates\<close>: \<^verbatim>\<open>data[hero]?.opponents || {}\<close>, \<^verbatim>\<open>wsum\<close>, one turn.\<close>

definition oppsOf :: "dataV2 \<Rightarrow> string \<Rightarrow> (string \<rightharpoonup> OppRec)" where
  "oppsOf data h = (case map_of data h of None \<Rightarrow> Map.empty | Some d \<Rightarrow> opponents d)"

definition wsumOf :: "(string \<rightharpoonup> OppRec) \<Rightarrow> (string \<times> real) list \<Rightarrow> real" where
  "wsumOf oppMap enemies = fst (snd (sumEnemies oppMap enemies (0, 0, [])))"

definition candidateOld :: "dataV2 \<Rightarrow> (string \<times> real) list \<Rightarrow> string \<Rightarrow> ScoredCandidate option" where
  "candidateOld data enemies h =
     (if h \<in> set (map fst enemies) then None
      else
        (case sumEnemies (oppsOf data h) enemies (0, 0, []) of
           (lsum, wsum, pe) \<Rightarrow>
             if wsum \<le> 0 then None
             else Some \<lparr>hero = h, combined = 100 * (lsum / wsum), perEnemy = pe,
                        matchShare = 0\<rparr>))"

subsection \<open>The specification's formula\<close>

text \<open>
  The selected enemies for which a hero has a matchup record: for each, its weight and
  the record.
\<close>

definition matchedRecords :: "(string \<rightharpoonup> 'v) \<Rightarrow> (string \<times> real) list \<Rightarrow> (real \<times> 'v) list" where
  "matchedRecords m enemies =
     List.map_filter (\<lambda>(e, w). map_option (\<lambda>v. (w, v)) (m e)) enemies"




subsection \<open>Example inputs\<close>

definition pick :: "string \<Rightarrow> real \<Rightarrow> EnemyPick" where
  "pick s w =
     \<lparr>pick_hero = Some \<lparr>slug = s, name = s, image = ''/content/images/heroes/'' @ s @ ''.png''\<rparr>,
      weight = w\<rparr>"

definition emptySlot :: "real \<Rightarrow> EnemyPick" where
  "emptySlot w = \<lparr>pick_hero = None, weight = w\<rparr>"

subsection \<open>Role selections and the two data shapes\<close>

text \<open>
  The values \<^verbatim>\<open>selectedRoles\<close> can take: the first one, and what the three handlers
  make of a value; \<^verbatim>\<open>toggleRole\<close> is only called with a role of \<open>ALL_ROLES\<close>.
\<close>

inductive reachableRoles :: "string list \<Rightarrow> bool" where
  initial: "reachableRoles ALL_ROLES"
| toggle: "reachableRoles prev \<Longrightarrow> role \<in> set ALL_ROLES \<Longrightarrow> reachableRoles (toggleRole role prev)"
| setAll: "reachableRoles setAll"
| clearAll: "reachableRoles clearAll"



subsection \<open>Reading a result, and well-formed picks\<close>

text \<open>The combined score of hero \<open>H\<close> in a result, if \<open>H\<close> has a row.\<close>

definition scoreOf :: "string \<Rightarrow> CounterResult list \<Rightarrow> real option" where
  "scoreOf H results = map_option combined (find (\<lambda>r. hero r = H) results)"

text \<open>A row without the \<open>k\<close>-th entry of its per-enemy breakdown.\<close>

definition dropEntry :: "nat \<Rightarrow> CounterResult \<Rightarrow> CounterResult" where
  "dropEntry k r = r\<lparr>perEnemy := take k (perEnemy r) @ drop (Suc k) (perEnemy r)\<rparr>"

text \<open>Every hero held by a slot has a slug that is not the empty string.\<close>

definition slugsNonEmpty :: "EnemyPick list \<Rightarrow> bool" where
  "slugsNonEmpty picks = (\<forall>p \<in> set picks. \<forall>h. pick_hero p = Some h \<longrightarrow> slug h \<noteq> [])"

subsection \<open>Loading: well-shaped files, and example file systems\<close>

text \<open>The value a fetch leaves after \<^verbatim>\<open>.catch(() => null)\<close>.\<close>

definition bodyOf :: "json promise \<Rightarrow> json" where
  "bodyOf p = (case p of Rejected \<Rightarrow> JNull | Resolved v \<Rightarrow> v)"

text \<open>
  A parsed body of the shape of a matchup file, as far as the loader calls a method on
  what it reads: \<^verbatim>\<open>hero\<close> is a string, \<^verbatim>\<open>matchups\<close> is an array, and every matchup has a
  string \<^verbatim>\<open>opponent\<close>.
\<close>

definition hasOpponent :: "json \<Rightarrow> bool" where
  "hasOpponent m = (case getProp m ''opponent'' of Some (JStr s) \<Rightarrow> True | _ \<Rightarrow> False)"

definition matchupShaped :: "json \<Rightarrow> bool" where
  "matchupShaped f =
     (case getProp f ''hero'' of
        Some (JStr h) \<Rightarrow>
          (case getProp f ''matchups'' of Some (JArr ms) \<Rightarrow> list_all hasOpponent ms | _ \<Rightarrow> False)
      | _ \<Rightarrow> False)"

text \<open>
  A patch none of whose files can be fetched, one with a single good file, and one
  where a second file parses to the empty object.
\<close>

definition noFile :: "string \<Rightarrow> json promise" where
  "noFile s = Rejected"

definition axeFile :: json where
  "axeFile =
     JObj [(''hero'', JStr ''Axe''),
           (''matchups'', JArr [JObj [(''opponent'', JStr ''Zeus''), (''winrate'', JNum 48.5)]])]"

definition onlyAxe :: "string \<Rightarrow> json promise" where
  "onlyAxe s = (if s = ''axe'' then Resolved axeFile else Rejected)"

definition axeAndEmptyObject :: "string \<Rightarrow> json promise" where
  "axeAndEmptyObject s = (if s = ''axe'' then Resolved axeFile else Resolved (JObj []))"

text \<open>The key \<^verbatim>\<open>loadData\<close> files an object under, and the matchups it keeps.\<close>

definition heroOfFile :: "string \<Rightarrow> RawFile \<Rightarrow> string" where
  "heroOfFile file obj =
     toLowerCase (case raw_hero obj of None \<Rightarrow> basename file ''.json'' | Some s \<Rightarrow> s)"

definition completeMatchup :: "RawMatchup \<Rightarrow> bool" where
  "completeMatchup m \<longleftrightarrow>
     toLowerCase (case raw_opponent m of None \<Rightarrow> [] | Some s \<Rightarrow> s) \<noteq> [] \<and>
     raw_winrate m \<noteq> None \<and> raw_matches m \<noteq> None"

text \<open>The file names \<^verbatim>\<open>loadData\<close> iterates.\<close>

definition listed :: "string list promise \<Rightarrow> string list" where
  "listed readdir = (case readdir of Rejected \<Rightarrow> [] | Resolved files \<Rightarrow> files)"

definition noJson :: "string \<Rightarrow> RawFile option" where
  "noJson f = None"

definition onlyAxeJson :: "string \<Rightarrow> RawFile option" where
  "onlyAxeJson file =
     (if file = ''axe.json'' then
        Some \<lparr>raw_hero = None,
              raw_matchups =
                [\<lparr>raw_opponent = Some ''Zeus'', raw_winrate = Some 48, raw_matches = Some 1200\<rparr>,
                 \<lparr>raw_opponent = Some ''Lina'', raw_winrate = None, raw_matches = Some 900\<rparr>]\<rparr>
      else None)"

section \<open>The loops in closed form\<close>

lemma set_map_filter: "set (List.map_filter f xs) = {y. \<exists>x \<in> set xs. f x = Some y}"
  by (induction xs) (auto simp: List.map_filter_simps split: option.splits)

lemma matchedRecords_Nil: "matchedRecords m [] = []"
  by (simp add: matchedRecords_def List.map_filter_simps)

lemma matchedRecords_Cons:
  "matchedRecords m ((e, w) # es) =
     (case m e of None \<Rightarrow> matchedRecords m es | Some v \<Rightarrow> (w, v) # matchedRecords m es)"
  by (simp add: matchedRecords_def List.map_filter_simps split: option.splits)

lemma matchedRecords_append:
  "matchedRecords m (xs @ ys) = matchedRecords m xs @ matchedRecords m ys"
  by (simp add: matchedRecords_def List.map_filter_def)

subsection \<open>DraftPage.tsx\<close>

lemma scoreEnemies_closed:
  "scoreEnemies m es (ws, wt, pe) =
     (ws + (\<Sum>(w, wr) \<leftarrow> matchedRecords m es. w * pctToLogOdds wr),
      wt + (\<Sum>(w, wr) \<leftarrow> matchedRecords m es. w),
      pe @ map (\<lambda>(e, w). \<lparr>enemy = e, winrate = m e\<rparr>) es)"
proof (induction es arbitrary: ws wt pe)
  case Nil
  show ?case by (simp add: matchedRecords_Nil)
next
  case (Cons x es)
  obtain e w where x: "x = (e, w)" by (cases x)
  show ?case
  proof (cases "m e")
    case None
    then show ?thesis by (simp add: x Cons.IH matchedRecords_Cons)
  next
    case (Some wr)
    then show ?thesis by (simp add: x Cons.IH matchedRecords_Cons algebra_simps)
  qed
qed

lemma weightTotalOf_closed: "weightTotalOf m es = (\<Sum>(w, wr) \<leftarrow> matchedRecords m es. w)"
  by (simp add: weightTotalOf_def scoreEnemies_closed)

lemma scoreEntries_map_filter:
  "scoreEntries enemies data out = out @ List.map_filter (candidate enemies) data"
proof (induction data arbitrary: out)
  case Nil
  show ?case by (simp add: List.map_filter_simps)
next
  case (Cons entry data)
  obtain h m where entry: "entry = (h, m)" by (cases entry)
  obtain ws wt pe where sc: "scoreEnemies m enemies (0, 0, []) = (ws, wt, pe)"
    by (cases "scoreEnemies m enemies (0, 0, [])")
  show ?case
    by (simp add: entry sc candidate_def List.map_filter_simps Cons.IH)
qed

lemma candidate_closed:
  "candidate enemies entry =
     (if fst entry \<in> set (map fst enemies) \<or> weightTotalOf (snd entry) enemies \<le> 0 then None
      else Some \<lparr>hero = fst entry,
                 combined =
                   logOddsToPct
                     ((\<Sum>(w, wr) \<leftarrow> matchedRecords (snd entry) enemies. w * pctToLogOdds wr)
                      / weightTotalOf (snd entry) enemies),
                 perEnemy = map (\<lambda>(e, w). \<lparr>enemy = e, winrate = snd entry e\<rparr>) enemies\<rparr>)"
  by (simp add: candidate_def scoreEnemies_closed weightTotalOf_closed)

lemma candidate_not_enemy:
  "candidate enemies entry = Some r \<Longrightarrow> hero r \<notin> fst ` set enemies"
  by (force simp: candidate_closed split: if_splits)

lemma candidateResults_sorted:
  "candidateResults data picks =
     (if selectedEnemySlugs picks = [] then []
      else sort_key (\<lambda>r. - combined r) (List.map_filter (candidate (enemiesOf picks)) data))"
  by (simp add: candidateResults_def counterResults_def scoreEntries_map_filter)

lemma in_candidateResults:
  assumes "r \<in> set (candidateResults data picks)"
  shows "\<exists>entry \<in> set data. candidate (enemiesOf picks) entry = Some r"
  using assms by (auto simp: candidateResults_sorted set_map_filter split: if_splits)

subsection \<open>logic.ts\<close>

lemma sumEnemies_closed:
  "sumEnemies m es (ls, wt, pe) =
     (ls + (\<Sum>(w, rec) \<leftarrow> matchedRecords m es. w * clamp (o_winrate rec / 100) 0 1),
      wt + (\<Sum>(w, rec) \<leftarrow> matchedRecords m es. w),
      pe @ map (\<lambda>(s, w). \<lparr>enemy = s, winrate = map_option o_winrate (m s)\<rparr>) es)"
proof (induction es arbitrary: ls wt pe)
  case Nil
  show ?case by (simp add: matchedRecords_Nil)
next
  case (Cons x es)
  obtain s w where x: "x = (s, w)" by (cases x)
  show ?case
  proof (cases "m s")
    case None
    then show ?thesis by (simp add: x Cons.IH matchedRecords_Cons)
  next
    case (Some rec)
    then show ?thesis by (simp add: x Cons.IH matchedRecords_Cons algebra_simps Let_def)
  qed
qed

lemma wsumOf_closed: "wsumOf m es = (\<Sum>(w, rec) \<leftarrow> matchedRecords m es. w)"
  by (simp add: wsumOf_def sumEnemies_closed)

lemma scoreKeys_map_filter:
  "scoreKeys data enemies keys results =
     results @ List.map_filter (candidateOld data enemies) keys"
proof (induction keys arbitrary: results)
  case Nil
  show ?case by (simp add: List.map_filter_simps)
next
  case (Cons h keys)
  obtain ls wt pe where sc: "sumEnemies (oppsOf data h) enemies (0, 0, []) = (ls, wt, pe)"
    by (cases "sumEnemies (oppsOf data h) enemies (0, 0, [])")
  from sc have sc': "sumEnemies (case map_of data h of None \<Rightarrow> Map.empty | Some d \<Rightarrow> opponents d)
      enemies (0, 0, []) = (ls, wt, pe)"
    by (simp add: oppsOf_def)
  show ?case
    by (simp add: sc sc' candidateOld_def List.map_filter_simps Cons.IH Let_def)
qed

lemma candidateOld_closed:
  "candidateOld data enemies h =
     (if h \<in> set (map fst enemies) \<or> wsumOf (oppsOf data h) enemies \<le> 0 then None
      else Some \<lparr>hero = h,
                 combined =
                   100 * ((\<Sum>(w, rec) \<leftarrow> matchedRecords (oppsOf data h) enemies.
                              w * clamp (o_winrate rec / 100) 0 1)
                          / wsumOf (oppsOf data h) enemies),
                 perEnemy =
                   map (\<lambda>(s, w). \<lparr>enemy = s, winrate = map_option o_winrate (oppsOf data h s)\<rparr>)
                     enemies,
                 matchShare = 0\<rparr>)"
  by (simp add: candidateOld_def sumEnemies_closed wsumOf_closed)

lemma scoreCandidates_sorted:
  "scoreCandidates data enemies =
     sort_key (\<lambda>r. - combined r) (List.map_filter (candidateOld data enemies) (map fst data))"
  by (simp add: scoreCandidates_def scoreKeys_map_filter)

lemma in_scoreCandidates:
  assumes "r \<in> set (scoreCandidates data enemies)"
  shows "\<exists>h \<in> set (map fst data). candidateOld data enemies h = Some r"
  using assms by (auto simp: scoreCandidates_sorted set_map_filter)

subsection \<open>Log-odds and back\<close>


lemma logOddsToPct_ln:
  assumes "0 < p" "p < 1"
  shows "logOddsToPct (ln (p / (1 - p))) = 100 * p"
proof -
  have pos: "0 < p / (1 - p)" using assms by simp
  have "exp (- ln (p / (1 - p))) = (1 - p) / p"
    using pos by (simp add: exp_minus)
  then have "1 + exp (- ln (p / (1 - p))) = 1 / p"
    using assms by (simp add: field_simps)
  then show ?thesis using assms by (simp add: logOddsToPct_def)
qed

lemma clamp_inside: "lo \<le> x \<Longrightarrow> x \<le> hi \<Longrightarrow> clamp x lo hi = x"
  by (simp add: clamp_def)

lemma pctToLogOdds_inside:
  assumes "1 / 2 \<le> pct" "pct \<le> 199 / 2"
  shows "pctToLogOdds pct = ln ((pct / 100) / (1 - pct / 100))"
proof -
  have c: "clamp (pct / 100) 0.005 0.995 = pct / 100"
    using assms by (intro clamp_inside) simp_all
  show ?thesis unfolding pctToLogOdds_def Let_def c ..
qed

lemma logOddsToPct_pctToLogOdds:
  assumes "1 / 2 \<le> pct" "pct \<le> 199 / 2"
  shows "logOddsToPct (pctToLogOdds pct) = pct"
proof -
  have "logOddsToPct (ln ((pct / 100) / (1 - pct / 100))) = 100 * (pct / 100)"
    using assms by (intro logOddsToPct_ln) simp_all
  then show ?thesis unfolding pctToLogOdds_inside [OF assms] by simp
qed

lemmas eval_simps =
  candidateResults_def counterResults_def selectedEnemySlugs_def enemiesOf_def
  List.map_filter_simps pick_def emptySlot_def

section \<open>The combined score (C1)\<close>





section \<open>Selected enemies are not candidates (C2)\<close>

lemma not_enemy_new:
  assumes "p \<in> set picks" "pick_hero p = Some h"
  shows "slug h \<notin> hero ` set (candidateResults data picks)"
proof
  assume "slug h \<in> hero ` set (candidateResults data picks)"
  then obtain r where r: "r \<in> set (candidateResults data picks)" and hr: "hero r = slug h"
    by auto
  from in_candidateResults [OF r] obtain entry
    where c: "candidate (enemiesOf picks) entry = Some r" by auto
  have "slug h \<in> fst ` set (enemiesOf picks)"
    using assms by (force simp: enemiesOf_def)
  with candidate_not_enemy [OF c] hr show False by simp
qed

lemma not_enemy_old:
  assumes "(s, w) \<in> set enemies"
  shows "s \<notin> hero ` set (scoreCandidates data enemies)"
proof
  assume "s \<in> hero ` set (scoreCandidates data enemies)"
  then obtain r where r: "r \<in> set (scoreCandidates data enemies)" and hr: "hero r = s"
    by auto
  from in_scoreCandidates [OF r] obtain h where c: "candidateOld data enemies h = Some r"
    by auto
  from c have "hero r \<notin> fst ` set enemies"
    by (force simp: candidateOld_closed split: if_splits)
  with assms hr show False by force
qed

text \<open>
  C2. For every dataset and every sequence of enemy picks, the slug of a hero held by
  a slot is not the hero of any row of the result; the same holds of
  \<^verbatim>\<open>scoreCandidates\<close> and the enemies it is given.
\<close>

theorem selected_enemy_never_candidate:
  "(\<forall>data picks p h.
      p \<in> set picks \<and> pick_hero p = Some h \<longrightarrow>
      slug h \<notin> hero ` set (candidateResults data picks)) \<and>
   (\<forall>data enemies s w.
      (s, w) \<in> set enemies \<longrightarrow> s \<notin> hero ` set (scoreCandidates data enemies))"
  using not_enemy_new not_enemy_old by blast

theorem selected_enemy_never_candidate_witness:
  "pick ''axe'' 1 \<in> set [pick ''axe'' 1, emptySlot 0.5] \<and>
   pick_hero (pick ''axe'' 1) = Some \<lparr>slug = ''axe'', name = ''axe'', image = ''/content/images/heroes/axe.png''\<rparr> \<and>
   ''axe'' \<notin> hero ` set (candidateResults
        [(''axe'', [''juggernaut'' \<mapsto> 45]), (''juggernaut'', [''axe'' \<mapsto> 55])]
        [pick ''axe'' 1, emptySlot 0.5]) \<and>
   (''axe'', 1) \<in> set [(''axe'', 1::real)] \<and>
   ''axe'' \<notin> hero ` set (scoreCandidates
        [(''axe'', \<lparr>opponents = [''juggernaut'' \<mapsto> \<lparr>o_winrate = 45, matches = 10\<rparr>], totalMatches = 10\<rparr>)]
        [(''axe'', 1)])"
proof -
  let ?h = "\<lparr>slug = ''axe'', name = ''axe'', image = ''/content/images/heroes/axe.png''\<rparr>"
  have p: "pick ''axe'' 1 \<in> set [pick ''axe'' 1, emptySlot 0.5] \<and> pick_hero (pick ''axe'' 1) = Some ?h"
    by (simp add: pick_def)
  have e: "(''axe'', 1) \<in> set [(''axe'', 1::real)]" by simp
  from selected_enemy_never_candidate p
  have "slug ?h \<notin> hero ` set (candidateResults
        [(''axe'', [''juggernaut'' \<mapsto> 45]), (''juggernaut'', [''axe'' \<mapsto> 55])]
        [pick ''axe'' 1, emptySlot 0.5])"
    by blast
  moreover from selected_enemy_never_candidate e
  have "''axe'' \<notin> hero ` set (scoreCandidates
        [(''axe'', \<lparr>opponents = [''juggernaut'' \<mapsto> \<lparr>o_winrate = 45, matches = 10\<rparr>], totalMatches = 10\<rparr>)]
        [(''axe'', 1)])"
    by blast
  ultimately show ?thesis using p e by simp
qed

lemmas eval_old_simps =
  scoreCandidates_def oppsOf_def wsumOf_def clamp_def Let_def

section \<open>Candidates without evidence (C6)\<close>

lemma candidate_None_iff:
  "candidate enemies entry = None \<longleftrightarrow>
     fst entry \<in> fst ` set enemies \<or> weightTotalOf (snd entry) enemies \<le> 0"
  by (simp add: candidate_closed)

lemma candidate_hero: "candidate enemies entry = Some r \<Longrightarrow> hero r = fst entry"
  by (auto simp: candidate_closed split: if_splits)

lemma absent_new:
  assumes "\<forall>m. (H, m) \<in> set data \<longrightarrow> weightTotalOf m (enemiesOf picks) \<le> 0"
  shows "H \<notin> hero ` set (candidateResults data picks)"
proof
  assume "H \<in> hero ` set (candidateResults data picks)"
  then obtain r where r: "r \<in> set (candidateResults data picks)" and hr: "hero r = H"
    by auto
  from in_candidateResults [OF r] obtain h m
    where mem: "(h, m) \<in> set data" and c: "candidate (enemiesOf picks) (h, m) = Some r"
    by auto
  from candidate_hero [OF c] hr have "h = H" by simp
  with mem assms have "weightTotalOf m (enemiesOf picks) \<le> 0" by blast
  then have "candidate (enemiesOf picks) (h, m) = None" by (simp add: candidate_None_iff)
  with c show False by simp
qed

lemma absent_old:
  assumes "wsumOf (oppsOf data H) enemies \<le> 0"
  shows "H \<notin> hero ` set (scoreCandidates data enemies)"
proof
  assume "H \<in> hero ` set (scoreCandidates data enemies)"
  then obtain r where r: "r \<in> set (scoreCandidates data enemies)" and hr: "hero r = H"
    by auto
  from in_scoreCandidates [OF r] obtain h where c: "candidateOld data enemies h = Some r"
    by auto
  from c have "hero r = h" "\<not> wsumOf (oppsOf data h) enemies \<le> 0"
    by (auto simp: candidateOld_closed split: if_splits)
  with hr assms show False by simp
qed

lemma matched_weight_zero:
  assumes "\<forall>(e, w) \<in> set enemies. m e = None \<or> w = 0"
  shows "(\<Sum>(w, v) \<leftarrow> matchedRecords m enemies. w) = (0::real)"
  using assms
proof (induction enemies)
  case Nil
  show ?case by (simp add: matchedRecords_Nil)
next
  case (Cons x enemies)
  obtain e w where x: "x = (e, w)" by (cases x)
  from Cons.prems have rest: "\<forall>(e, w) \<in> set enemies. m e = None \<or> w = 0" by simp
  from Cons.prems x have here: "m e = None \<or> w = 0" by simp
  show ?case using Cons.IH [OF rest] here
    by (auto simp: x matchedRecords_Cons split: option.splits)
qed

lemma matched_weight_nonpos:
  assumes "\<forall>(e, w) \<in> set enemies. w \<le> 0"
  shows "(\<Sum>(w, v) \<leftarrow> matchedRecords m enemies. w) \<le> (0::real)"
  using assms
proof (induction enemies)
  case Nil
  show ?case by (simp add: matchedRecords_Nil)
next
  case (Cons x enemies)
  obtain e w where x: "x = (e, w)" by (cases x)
  from Cons.prems have rest: "\<forall>(e, w) \<in> set enemies. w \<le> 0" by simp
  from Cons.prems x have here: "w \<le> 0" by simp
  show ?case using Cons.IH [OF rest] here
    by (auto simp: x matchedRecords_Cons split: option.splits)
qed

lemma zero_weight_total:
  assumes "\<forall>(e, w) \<in> set enemies. m e = None \<or> w = 0"
  shows "weightTotalOf m enemies = 0"
  using matched_weight_zero [OF assms] by (simp add: weightTotalOf_closed)

text \<open>
  C6. For every dataset and every sequence of enemy picks, a hero \<open>H\<close> whose accumulated
  \<^verbatim>\<open>weightTotal\<close> over the selected enemies is at most zero (for each entry the dataset
  has under \<open>H\<close>) is the hero of no row of the result. The total is zero when every
  selected enemy either has no record in the hero's map or has weight zero. The same
  holds of \<^verbatim>\<open>scoreCandidates\<close> and its \<^verbatim>\<open>wsum\<close>.
\<close>

theorem no_evidence_no_candidate:
  "(\<forall>data picks H.
      (\<forall>m. (H, m) \<in> set data \<longrightarrow> weightTotalOf m (enemiesOf picks) \<le> 0) \<longrightarrow>
      H \<notin> hero ` set (candidateResults data picks)) \<and>
   (\<forall>m enemies.
      (\<forall>(e, w) \<in> set enemies. m e = None \<or> w = 0) \<longrightarrow> weightTotalOf m enemies = 0) \<and>
   (\<forall>data enemies H.
      wsumOf (oppsOf data H) enemies \<le> 0 \<longrightarrow> H \<notin> hero ` set (scoreCandidates data enemies))"
proof (intro conjI allI impI)
  fix data :: matchupData and picks :: "EnemyPick list" and H
  assume "\<forall>m. (H, m) \<in> set data \<longrightarrow> weightTotalOf m (enemiesOf picks) \<le> 0"
  then show "H \<notin> hero ` set (candidateResults data picks)" by (rule absent_new)
next
  fix m :: oppMap and enemies :: "(string \<times> real) list"
  assume "\<forall>(e, w) \<in> set enemies. m e = None \<or> w = 0"
  then show "weightTotalOf m enemies = 0" by (rule zero_weight_total)
next
  fix data :: dataV2 and enemies H
  assume "wsumOf (oppsOf data H) enemies \<le> 0"
  then show "H \<notin> hero ` set (scoreCandidates data enemies)" by (rule absent_old)
qed

theorem no_evidence_no_candidate_witness:
  "weightTotalOf [''axe'' \<mapsto> 55] (enemiesOf [pick ''zeus'' 1]) \<le> 0 \<and>
   ''juggernaut'' \<notin> hero ` set (candidateResults
      [(''juggernaut'', [''axe'' \<mapsto> 55]), (''lina'', [''zeus'' \<mapsto> 60])] [pick ''zeus'' 1]) \<and>
   ''lina'' \<in> hero ` set (candidateResults
      [(''juggernaut'', [''axe'' \<mapsto> 55]), (''lina'', [''zeus'' \<mapsto> 60])] [pick ''zeus'' 1]) \<and>
   weightTotalOf [''axe'' \<mapsto> 55] [(''zeus'', 1), (''axe'', 0)] = 0 \<and>
   wsumOf (oppsOf [(''juggernaut'',
        \<lparr>opponents = [''axe'' \<mapsto> \<lparr>o_winrate = 55, matches = 100\<rparr>], totalMatches = 100\<rparr>)]
        ''juggernaut'') [(''zeus'', 1)] \<le> 0 \<and>
   ''juggernaut'' \<notin> hero ` set (scoreCandidates [(''juggernaut'',
        \<lparr>opponents = [''axe'' \<mapsto> \<lparr>o_winrate = 55, matches = 100\<rparr>], totalMatches = 100\<rparr>)]
        [(''zeus'', 1)])"
proof -
  let ?D = "[(''juggernaut'', [''axe'' \<mapsto> (55::real)]), (''lina'', [''zeus'' \<mapsto> 60])]"
  let ?P = "[pick ''zeus'' 1]"
  let ?O = "[(''juggernaut'',
        \<lparr>opponents = [''axe'' \<mapsto> \<lparr>o_winrate = 55, matches = 100\<rparr>], totalMatches = 100\<rparr>)]"
  have w: "weightTotalOf [''axe'' \<mapsto> 55] (enemiesOf ?P) \<le> 0"
    by (simp add: weightTotalOf_def eval_simps)
  then have h1: "\<forall>m. (''juggernaut'', m) \<in> set ?D \<longrightarrow> weightTotalOf m (enemiesOf ?P) \<le> 0"
    by simp
  have h2: "\<forall>(e, w) \<in> set [(''zeus'', 1::real), (''axe'', 0)]. [''axe'' \<mapsto> (55::real)] e = None \<or> w = 0"
    by simp
  have h3: "wsumOf (oppsOf ?O ''juggernaut'') [(''zeus'', 1)] \<le> 0"
    by (simp add: eval_old_simps)
  have lina: "''lina'' \<in> hero ` set (candidateResults ?D ?P)"
    by (simp add: eval_simps)
  from no_evidence_no_candidate h1
  have c1: "''juggernaut'' \<notin> hero ` set (candidateResults ?D ?P)" by blast
  from no_evidence_no_candidate h2
  have c2: "weightTotalOf [''axe'' \<mapsto> 55] [(''zeus'', 1), (''axe'', 0)] = 0" by blast
  from no_evidence_no_candidate h3
  have c3: "''juggernaut'' \<notin> hero ` set (scoreCandidates ?O [(''zeus'', 1)])" by blast
  from w c1 lina c2 h3 c3 show ?thesis by blast
qed

section \<open>Empty results (C7)\<close>

lemma map_filter_all_None:
  assumes "\<forall>x \<in> set xs. f x = None"
  shows "List.map_filter f xs = []"
  using assms by (induction xs) (simp_all add: List.map_filter_simps)

lemma empty_when_no_weight:
  assumes "\<forall>entry \<in> set data. weightTotalOf (snd entry) (enemiesOf picks) \<le> 0"
  shows "candidateResults data picks = []"
proof -
  have "List.map_filter (candidate (enemiesOf picks)) data = []"
    using assms by (intro map_filter_all_None) (simp add: candidate_None_iff)
  then show ?thesis by (simp add: candidateResults_sorted)
qed

lemma enemiesOf_weight:
  assumes "(e, w) \<in> set (enemiesOf picks)"
  shows "\<exists>p \<in> set picks. \<exists>h. pick_hero p = Some h \<and> slug h = e \<and> weight p = w"
  using assms by (fastforce simp: enemiesOf_def)

lemma empty_no_positive_weight:
  assumes "\<not> (\<exists>p \<in> set picks. pick_hero p \<noteq> None \<and> 0 < weight p)"
  shows "candidateResults data picks = []"
proof (rule empty_when_no_weight, rule ballI)
  fix entry assume "entry \<in> set data"
  have "w \<le> 0" if "(e, w) \<in> set (enemiesOf picks)" for e w
  proof -
    from enemiesOf_weight [OF that] obtain p h
      where p: "p \<in> set picks" "pick_hero p = Some h" "weight p = w" by auto
    from assms p(1) have "\<not> (pick_hero p \<noteq> None \<and> 0 < weight p)" by blast
    with p show "w \<le> 0" by simp
  qed
  then have "\<forall>(e, w) \<in> set (enemiesOf picks). w \<le> 0" by auto
  from matched_weight_nonpos [OF this]
  show "weightTotalOf (snd entry) (enemiesOf picks) \<le> 0"
    by (simp add: weightTotalOf_closed)
qed

lemma empty_no_record:
  assumes "\<not> (\<exists>(h, m) \<in> set data. \<exists>p \<in> set picks. \<exists>g. pick_hero p = Some g \<and> m (slug g) \<noteq> None)"
  shows "candidateResults data picks = []"
proof (rule empty_when_no_weight, rule ballI)
  fix entry assume entry: "entry \<in> set data"
  obtain h m where hm: "entry = (h, m)" by (cases entry)
  have "m e = None" if "(e, w) \<in> set (enemiesOf picks)" for e w
  proof (rule ccontr)
    assume y: "m e \<noteq> None"
    from enemiesOf_weight [OF that] obtain p g
      where p: "p \<in> set picks" "pick_hero p = Some g" "slug g = e" by auto
    from entry hm p y
    have "\<exists>(h, m) \<in> set data. \<exists>p \<in> set picks. \<exists>g. pick_hero p = Some g \<and> m (slug g) \<noteq> None"
      by (intro bexI [of _ "(h, m)"]) auto
    with assms show False by simp
  qed
  then have "\<forall>(e, w) \<in> set (enemiesOf picks). m e = None \<or> w = 0" by auto
  from zero_weight_total [OF this]
  show "weightTotalOf (snd entry) (enemiesOf picks) \<le> 0" by (simp add: hm)
qed

text \<open>
  C7. When no slot both holds a hero and has a weight above zero, the scoring pass
  returns the empty sequence; it also returns the empty sequence when no hero of the
  dataset has a record against any selected enemy. The pass is a total function to
  lists: neither case is an error.
\<close>

theorem empty_result_is_normal:
  "(\<forall>data picks.
      \<not> (\<exists>p \<in> set picks. pick_hero p \<noteq> None \<and> 0 < weight p) \<longrightarrow>
      candidateResults data picks = []) \<and>
   (\<forall>data picks.
      \<not> (\<exists>(h, m) \<in> set data. \<exists>p \<in> set picks. \<exists>g. pick_hero p = Some g \<and> m (slug g) \<noteq> None) \<longrightarrow>
      candidateResults data picks = [])"
proof (intro conjI allI impI)
  fix data :: matchupData and picks :: "EnemyPick list"
  assume "\<not> (\<exists>p \<in> set picks. pick_hero p \<noteq> None \<and> 0 < weight p)"
  then show "candidateResults data picks = []" by (rule empty_no_positive_weight)
next
  fix data :: matchupData and picks :: "EnemyPick list"
  assume "\<not> (\<exists>(h, m) \<in> set data. \<exists>p \<in> set picks. \<exists>g. pick_hero p = Some g \<and> m (slug g) \<noteq> None)"
  then show "candidateResults data picks = []" by (rule empty_no_record)
qed

theorem empty_result_is_normal_witness:
  "\<not> (\<exists>p \<in> set [pick ''axe'' 0, emptySlot 0.5]. pick_hero p \<noteq> None \<and> 0 < weight p) \<and>
   candidateResults [(''juggernaut'', [''axe'' \<mapsto> 55])] [pick ''axe'' 0, emptySlot 0.5] = [] \<and>
   \<not> (\<exists>(h, m) \<in> set [(''juggernaut'', [''axe'' \<mapsto> (55::real)])].
        \<exists>p \<in> set [pick ''zeus'' 1]. \<exists>g. pick_hero p = Some g \<and> m (slug g) \<noteq> None) \<and>
   candidateResults [(''juggernaut'', [''axe'' \<mapsto> 55])] [pick ''zeus'' 1] = []"
proof -
  let ?D = "[(''juggernaut'', [''axe'' \<mapsto> (55::real)])]"
  have h1: "\<not> (\<exists>p \<in> set [pick ''axe'' 0, emptySlot 0.5]. pick_hero p \<noteq> None \<and> 0 < weight p)"
    by (simp add: pick_def emptySlot_def)
  have h2: "\<not> (\<exists>(h, m) \<in> set ?D.
        \<exists>p \<in> set [pick ''zeus'' 1]. \<exists>g. pick_hero p = Some g \<and> m (slug g) \<noteq> None)"
    by (auto simp: pick_def)
  from empty_result_is_normal h1
  have c1: "candidateResults ?D [pick ''axe'' 0, emptySlot 0.5] = []" by blast
  from empty_result_is_normal h2
  have c2: "candidateResults ?D [pick ''zeus'' 1] = []" by blast
  from h1 c1 h2 c2 show ?thesis by blast
qed


section \<open>The per-enemy breakdown (C10)\<close>

lemma enemiesOf_map_filter:
  "map (\<lambda>(e, w). \<lparr>enemy = e, winrate = m e\<rparr>) (enemiesOf picks) =
   List.map_filter
     (\<lambda>p. map_option (\<lambda>h. \<lparr>enemy = slug h, winrate = m (slug h)\<rparr>) (pick_hero p)) picks"
  by (induction picks) (auto simp: enemiesOf_def List.map_filter_simps)

lemma perEnemy_new:
  assumes "r \<in> set (candidateResults data picks)"
  shows "\<exists>m. (hero r, m) \<in> set data \<and>
     perEnemy r =
       List.map_filter
         (\<lambda>p. map_option (\<lambda>h. \<lparr>enemy = slug h, winrate = m (slug h)\<rparr>) (pick_hero p)) picks"
proof -
  from in_candidateResults [OF assms] obtain h m
    where mem: "(h, m) \<in> set data" and c: "candidate (enemiesOf picks) (h, m) = Some r"
    by auto
  from c have "hero r = h"
    and "perEnemy r = map (\<lambda>(e, w). \<lparr>enemy = e, winrate = m e\<rparr>) (enemiesOf picks)"
    by (auto simp: candidate_closed split: if_splits)
  with mem show ?thesis by (auto simp: enemiesOf_map_filter)
qed

lemma perEnemy_old:
  assumes "r \<in> set (scoreCandidates data enemies)"
  shows "perEnemy r =
     map (\<lambda>(s, w). \<lparr>enemy = s, winrate = map_option o_winrate (oppsOf data (hero r) s)\<rparr>) enemies"
proof -
  from in_scoreCandidates [OF assms] obtain h where c: "candidateOld data enemies h = Some r"
    by auto
  then show ?thesis by (auto simp: candidateOld_closed split: if_splits)
qed

text \<open>
  C10. Every row the scoring pass returns belongs to an entry \<open>(hero, m)\<close> of the
  dataset, and its \<^verbatim>\<open>perEnemy\<close> list has exactly one entry for each slot that holds a
  hero, in the order of the slots: the hero's slug with \<open>m\<close>'s winrate for it, which is
  \<open>Some\<close> of the recorded winrate when there is a record and \<open>None\<close> exactly when there is
  none; so a missing record is never shown as a winrate of 0. In \<^verbatim>\<open>scoreCandidates\<close> the
  list has one entry for each enemy it is given, in order, built the same way.
\<close>

theorem per_enemy_breakdown:
  "(\<forall>data picks r.
      r \<in> set (candidateResults data picks) \<longrightarrow>
      (\<exists>m. (hero r, m) \<in> set data \<and>
           perEnemy r =
             List.map_filter
               (\<lambda>p. map_option (\<lambda>h. \<lparr>enemy = slug h, winrate = m (slug h)\<rparr>) (pick_hero p))
               picks)) \<and>
   (\<forall>data enemies r.
      r \<in> set (scoreCandidates data enemies) \<longrightarrow>
      perEnemy r =
        map (\<lambda>(s, w). \<lparr>enemy = s, winrate = map_option o_winrate (oppsOf data (hero r) s)\<rparr>)
          enemies)"
proof (intro conjI allI impI)
  fix data :: matchupData and picks :: "EnemyPick list" and r
  assume "r \<in> set (candidateResults data picks)"
  then show "\<exists>m. (hero r, m) \<in> set data \<and>
           perEnemy r =
             List.map_filter
               (\<lambda>p. map_option (\<lambda>h. \<lparr>enemy = slug h, winrate = m (slug h)\<rparr>) (pick_hero p))
               picks"
    by (rule perEnemy_new)
next
  fix data :: dataV2 and enemies r
  assume "r \<in> set (scoreCandidates data enemies)"
  then show "perEnemy r =
        map (\<lambda>(s, w). \<lparr>enemy = s, winrate = map_option o_winrate (oppsOf data (hero r) s)\<rparr>)
          enemies"
    by (rule perEnemy_old)
qed


theorem per_enemy_breakdown_witness:
  "\<lparr>hero = ''juggernaut'', combined = 55,
     perEnemy = [\<lparr>enemy = ''axe'', winrate = Some 55\<rparr>, \<lparr>enemy = ''zeus'', winrate = None\<rparr>]\<rparr>
     \<in> set (candidateResults [(''juggernaut'', [''axe'' \<mapsto> 55])]
               [pick ''axe'' 1, emptySlot 0.5, pick ''zeus'' 0.5]) \<and>
   (\<exists>m. (''juggernaut'', m) \<in> set [(''juggernaut'', [''axe'' \<mapsto> (55::real)])] \<and>
        [\<lparr>enemy = ''axe'', winrate = Some 55\<rparr>, \<lparr>enemy = ''zeus'', winrate = None\<rparr>] =
          List.map_filter
            (\<lambda>p. map_option (\<lambda>h. \<lparr>enemy = slug h, winrate = m (slug h)\<rparr>) (pick_hero p))
            [pick ''axe'' 1, emptySlot 0.5, pick ''zeus'' 0.5]) \<and>
   \<lparr>hero = ''juggernaut'', combined = 55,
     perEnemy = [\<lparr>enemy = ''axe'', winrate = Some 55\<rparr>, \<lparr>enemy = ''zeus'', winrate = None\<rparr>],
     matchShare = 0\<rparr>
     \<in> set (scoreCandidates
          [(''juggernaut'',
            \<lparr>opponents = [''axe'' \<mapsto> \<lparr>o_winrate = 55, matches = 100\<rparr>], totalMatches = 100\<rparr>)]
          [(''axe'', 1), (''zeus'', 0.5)])"
proof -
  let ?pe = "[\<lparr>enemy = ''axe'', winrate = Some 55\<rparr>, \<lparr>enemy = ''zeus'', winrate = None\<rparr>]"
  let ?r = "\<lparr>hero = ''juggernaut'', combined = 55, perEnemy = ?pe\<rparr>"
  let ?D = "[(''juggernaut'', [''axe'' \<mapsto> (55::real)])]"
  let ?P = "[pick ''axe'' 1, emptySlot 0.5, pick ''zeus'' 0.5]"
  have "logOddsToPct (pctToLogOdds 55) = 55"
    by (rule logOddsToPct_pctToLogOdds) simp_all
  then have mem: "?r \<in> set (candidateResults ?D ?P)"
    by (simp add: eval_simps)
  from per_enemy_breakdown have
    "?r \<in> set (candidateResults ?D ?P) \<longrightarrow>
      (\<exists>m. (hero ?r, m) \<in> set ?D \<and>
           perEnemy ?r =
             List.map_filter
               (\<lambda>p. map_option (\<lambda>h. \<lparr>enemy = slug h, winrate = m (slug h)\<rparr>) (pick_hero p)) ?P)"
    by blast
  with mem have new: "\<exists>m. (''juggernaut'', m) \<in> set ?D \<and>
        ?pe = List.map_filter
            (\<lambda>p. map_option (\<lambda>h. \<lparr>enemy = slug h, winrate = m (slug h)\<rparr>) (pick_hero p)) ?P"
    by simp
  have old: "\<lparr>hero = ''juggernaut'', combined = 55, perEnemy = ?pe, matchShare = 0\<rparr>
     \<in> set (scoreCandidates
          [(''juggernaut'',
            \<lparr>opponents = [''axe'' \<mapsto> \<lparr>o_winrate = 55, matches = 100\<rparr>], totalMatches = 100\<rparr>)]
          [(''axe'', 1), (''zeus'', 0.5)])"
    by (simp add: eval_old_simps)
  from mem new old show ?thesis by blast
qed

section \<open>The role filter (C8)\<close>

lemma distinct_ALL_ROLES: "distinct ALL_ROLES"
  by (simp add: ALL_ROLES_def)

lemma reachableRoles_invariant:
  assumes "reachableRoles sel"
  shows "distinct sel \<and> set sel \<subseteq> set ALL_ROLES"
  using assms
proof (induction rule: reachableRoles.induct)
  case initial
  show ?case by (simp add: distinct_ALL_ROLES)
next
  case (toggle prev role)
  then show ?case by (auto simp: toggleRole_def)
next
  case setAll
  show ?case by (simp add: setAll_def distinct_ALL_ROLES)
next
  case clearAll
  show ?case by (simp add: clearAll_def)
qed

lemma full_length_iff:
  assumes "distinct sel" "set sel \<subseteq> set ALL_ROLES"
  shows "length sel < length ALL_ROLES \<longleftrightarrow> set sel \<noteq> set ALL_ROLES"
proof -
  have card: "length sel = card (set sel)" "length ALL_ROLES = card (set ALL_ROLES)"
    using assms(1) distinct_ALL_ROLES by (simp_all add: distinct_card)
  show ?thesis
  proof
    assume "length sel < length ALL_ROLES"
    with card show "set sel \<noteq> set ALL_ROLES" by auto
  next
    assume "set sel \<noteq> set ALL_ROLES"
    with assms(2) have "set sel \<subset> set ALL_ROLES" by blast
    then have "card (set sel) < card (set ALL_ROLES)"
      by (intro psubset_card_mono) simp_all
    with card show "length sel < length ALL_ROLES" by simp
  qed
qed

lemma isFilteringActive_iff:
  assumes "distinct sel" "set sel \<subseteq> set ALL_ROLES"
  shows "isFilteringActive sel \<longleftrightarrow> sel \<noteq> [] \<and> set sel \<noteq> set ALL_ROLES"
  using full_length_iff [OF assms] by (simp add: isFilteringActive_def)

lemma role_predicate:
  "(let roles = (case rolesByHero h of None \<Rightarrow> [] | Some rs \<Rightarrow> rs)
    in if roles = [] then False else list_ex (\<lambda>role. role \<in> set sel) roles) \<longleftrightarrow>
   (\<exists>roles. rolesByHero h = Some roles \<and> roles \<noteq> [] \<and> set roles \<inter> set sel \<noteq> {})"
  by (cases "rolesByHero h") (auto simp: list_ex_iff)

lemma displayedResults_spec:
  assumes "distinct sel" "set sel \<subseteq> set ALL_ROLES"
  shows "displayedResults results rolesByHero sel =
     (if sel = [] \<or> set sel = set ALL_ROLES then results
      else filter
             (\<lambda>r. \<exists>roles. rolesByHero (hero r) = Some roles \<and> roles \<noteq> [] \<and>
                           set roles \<inter> set sel \<noteq> {})
             results)"
  unfolding displayedResults_def isFilteringActive_iff [OF assms] role_predicate
  by simp

text \<open>
  C8. Every value the component gives \<open>selectedRoles\<close> is a list without repetition of
  roles of the vocabulary. For such a list, the displayed
  results are the results unchanged when \<open>selectedRoles\<close> is empty or the whole
  vocabulary, and otherwise the results filtered, in their order, to the rows whose hero
  has a role list in the role map that is not empty and shares a role with
  \<open>selectedRoles\<close>. A hero with no known role is dropped whenever the filter is active,
  and nothing is sorted again.
\<close>

theorem role_filter:
  "(\<forall>selectedRoles.
      reachableRoles selectedRoles \<longrightarrow>
      distinct selectedRoles \<and> set selectedRoles \<subseteq> set ALL_ROLES) \<and>
   (\<forall>results rolesByHero selectedRoles.
      distinct selectedRoles \<and> set selectedRoles \<subseteq> set ALL_ROLES \<longrightarrow>
      displayedResults results rolesByHero selectedRoles =
        (if selectedRoles = [] \<or> set selectedRoles = set ALL_ROLES then results
         else filter
                (\<lambda>r. \<exists>roles. rolesByHero (hero r) = Some roles \<and> roles \<noteq> [] \<and>
                              set roles \<inter> set selectedRoles \<noteq> {})
                results))"
proof (intro conjI allI impI)
  fix selectedRoles
  assume "reachableRoles selectedRoles"
  then show "distinct selectedRoles" and "set selectedRoles \<subseteq> set ALL_ROLES"
    by (simp_all add: reachableRoles_invariant)
next
  fix results :: "CounterResult list" and rolesByHero and selectedRoles :: "string list"
  assume "distinct selectedRoles \<and> set selectedRoles \<subseteq> set ALL_ROLES"
  then show "displayedResults results rolesByHero selectedRoles =
        (if selectedRoles = [] \<or> set selectedRoles = set ALL_ROLES then results
         else filter
                (\<lambda>r. \<exists>roles. rolesByHero (hero r) = Some roles \<and> roles \<noteq> [] \<and>
                              set roles \<inter> set selectedRoles \<noteq> {})
                results)"
    by (simp add: displayedResults_spec)
qed

theorem role_filter_witness:
  "reachableRoles [''mid''] \<and> distinct [''mid''] \<and> set [''mid''] \<subseteq> set ALL_ROLES \<and>
   displayedResults
     [\<lparr>hero = ''juggernaut'', combined = 55, perEnemy = []\<rparr>,
      \<lparr>hero = ''lina'', combined = 52, perEnemy = []\<rparr>,
      \<lparr>hero = ''kez'', combined = 51, perEnemy = []\<rparr>,
      \<lparr>hero = ''puck'', combined = 50, perEnemy = []\<rparr>]
     [''juggernaut'' \<mapsto> [''carry''], ''lina'' \<mapsto> [''support'', ''mid''], ''kez'' \<mapsto> []]
     [''mid''] =
   [\<lparr>hero = ''lina'', combined = 52, perEnemy = []\<rparr>]"
proof -
  let ?R = "[\<lparr>hero = ''juggernaut'', combined = 55, perEnemy = []\<rparr>,
      \<lparr>hero = ''lina'', combined = 52, perEnemy = []\<rparr>,
      \<lparr>hero = ''kez'', combined = 51, perEnemy = []\<rparr>,
      \<lparr>hero = ''puck'', combined = 50, perEnemy = []\<rparr>]"
  let ?M = "[''juggernaut'' \<mapsto> [''carry''], ''lina'' \<mapsto> [''support'', ''mid''], ''kez'' \<mapsto> []]"
  have "reachableRoles (toggleRole ''mid'' clearAll)"
    by (rule reachableRoles.toggle [OF reachableRoles.clearAll]) (simp add: ALL_ROLES_def)
  then have r: "reachableRoles [''mid'']"
    by (simp add: toggleRole_def clearAll_def)
  from role_filter [THEN conjunct1, rule_format, OF r]
  have h: "distinct [''mid''] \<and> set [''mid''] \<subseteq> set ALL_ROLES" .
  have ne: "set [''mid''] \<noteq> set ALL_ROLES"
    by (simp add: ALL_ROLES_def)
  from role_filter [THEN conjunct2, rule_format, OF h, of ?R ?M]
  have "displayedResults ?R ?M [''mid''] =
     (if [''mid''] = [] \<or> set [''mid''] = set ALL_ROLES then ?R
      else filter
         (\<lambda>r. \<exists>roles. ?M (hero r) = Some roles \<and> roles \<noteq> [] \<and> set roles \<inter> set [''mid''] \<noteq> {})
         ?R)" .
  with r h ne show ?thesis by simp
qed

section \<open>The two scoring modules (C9)\<close>









section \<open>Slots that add nothing to a score (C5, C3)\<close>

lemma find_filter:
  "find P xs = (case filter P xs of [] \<Rightarrow> None | x # _ \<Rightarrow> Some x)"
  by (induction xs) simp_all

lemma filter_candidates_other:
  assumes "H \<notin> fst ` set data"
  shows "filter (\<lambda>r. hero r = H) (List.map_filter (candidate es) data) = []"
  using assms
proof (induction data)
  case Nil
  show ?case by (simp add: List.map_filter_simps)
next
  case (Cons entry data)
  then show ?case
    by (cases "candidate es entry")
       (auto simp: List.map_filter_simps dest: candidate_hero)
qed

lemma filter_candidates_hero:
  assumes "distinct (map fst data)" "(H, m) \<in> set data"
  shows "filter (\<lambda>r. hero r = H) (List.map_filter (candidate es) data) =
     (case candidate es (H, m) of None \<Rightarrow> [] | Some r \<Rightarrow> [r])"
  using assms
proof (induction data)
  case Nil
  then show ?case by simp
next
  case (Cons entry data)
  show ?case
  proof (cases "entry = (H, m)")
    case True
    with Cons.prems have "H \<notin> fst ` set data" by auto
    from filter_candidates_other [OF this] True show ?thesis
      by (cases "candidate es (H, m)")
         (auto simp: List.map_filter_simps dest: candidate_hero)
  next
    case False
    with Cons.prems have mem: "(H, m) \<in> set data" and d: "distinct (map fst data)"
      and ne: "fst entry \<noteq> H"
      by (auto simp: image_iff)
    from Cons.IH [OF d mem] ne show ?thesis
      by (cases "candidate es entry")
         (auto simp: List.map_filter_simps dest: candidate_hero)
  qed
qed

lemma scoreOf_candidateResults:
  assumes "distinct (map fst data)" "(H, m) \<in> set data"
  shows "scoreOf H (candidateResults data picks) =
     (if selectedEnemySlugs picks = [] then None
      else map_option combined (candidate (enemiesOf picks) (H, m)))"
proof (cases "selectedEnemySlugs picks = []")
  case True
  then show ?thesis by (simp add: scoreOf_def candidateResults_sorted)
next
  case False
  have "filter (\<lambda>r. hero r = H)
          (sort_key (\<lambda>r. - combined r) (List.map_filter (candidate (enemiesOf picks)) data)) =
        sort_key (\<lambda>r. - combined r)
          (case candidate (enemiesOf picks) (H, m) of None \<Rightarrow> [] | Some r \<Rightarrow> [r])"
    by (simp only: filter_sort filter_candidates_hero [OF assms])
  also have "\<dots> = (case candidate (enemiesOf picks) (H, m) of None \<Rightarrow> [] | Some r \<Rightarrow> [r])"
    by (cases "candidate (enemiesOf picks) (H, m)") simp_all
  finally show ?thesis using False
    by (cases "candidate (enemiesOf picks) (H, m)")
       (simp_all add: scoreOf_def candidateResults_sorted find_filter)
qed

lemma map_insort_key:
  assumes "\<And>x. f (g x) = f x"
  shows "map g (insort_key f x ys) = insort_key f (g x) (map g ys)"
  by (induction ys) (simp_all add: assms)

lemma map_sort_key:
  assumes "\<And>x. f (g x) = f x"
  shows "map g (sort_key f xs) = sort_key f (map g xs)"
  by (induction xs) (simp_all add: map_insort_key [of f g, OF assms])

lemma sums_insert_silent:
  assumes "w = 0 \<or> m b = None"
  shows "(\<Sum>(w, wr) \<leftarrow> matchedRecords m (es1 @ (b, w) # es2). w * pctToLogOdds wr) =
         (\<Sum>(w, wr) \<leftarrow> matchedRecords m (es1 @ es2). w * pctToLogOdds wr)"
    and "(\<Sum>(w, wr) \<leftarrow> matchedRecords m (es1 @ (b, w) # es2). w) =
         (\<Sum>(w, wr) \<leftarrow> matchedRecords m (es1 @ es2). w)"
  using assms
  by (auto simp: matchedRecords_append matchedRecords_Cons split: option.splits)

lemma weightTotalOf_insert_silent:
  assumes "w = 0 \<or> m b = None"
  shows "weightTotalOf m (es1 @ (b, w) # es2) = weightTotalOf m (es1 @ es2)"
  by (simp add: weightTotalOf_closed sums_insert_silent(2) [where m = m and b = b and w = w, OF assms])

lemma candidate_insert_silent:
  assumes "H \<noteq> b" "w = 0 \<or> m b = None"
  shows "map_option (dropEntry (length es1)) (candidate (es1 @ (b, w) # es2) (H, m)) =
         candidate (es1 @ es2) (H, m)"
  using assms(1)
  by (simp add: candidate_closed weightTotalOf_insert_silent [where m = m and b = b and w = w, OF assms(2)]
      sums_insert_silent(1) [where m = m and b = b and w = w, OF assms(2)] dropEntry_def)

lemma candidate_enemy_itself: "candidate (es1 @ (b, w) # es2) (b, m) = None"
  by (simp add: candidate_closed)

lemma combined_dropEntry: "combined (dropEntry k r) = combined r"
  by (simp add: dropEntry_def)

lemma hero_dropEntry: "hero (dropEntry k r) = hero r"
  by (simp add: dropEntry_def)

lemma candidate_combined_insert_silent:
  assumes "H \<noteq> b" "w = 0 \<or> m b = None"
  shows "map_option combined (candidate (es1 @ (b, w) # es2) (H, m)) =
         map_option combined (candidate (es1 @ es2) (H, m))"
proof -
  have "map_option combined (candidate (es1 @ es2) (H, m)) =
        map_option combined (map_option (dropEntry (length es1)) (candidate (es1 @ (b, w) # es2) (H, m)))"
    by (simp only: candidate_insert_silent [where m = m and b = b and w = w and H = H, OF assms])
  also have "\<dots> = map_option combined (candidate (es1 @ (b, w) # es2) (H, m))"
    by (simp add: option.map_comp comp_def combined_dropEntry)
  finally show ?thesis by simp
qed

lemma enemiesOf_append: "enemiesOf (ps1 @ ps2) = enemiesOf ps1 @ enemiesOf ps2"
  by (simp add: enemiesOf_def)

lemma enemiesOf_held: "enemiesOf (\<lparr>pick_hero = Some h, weight = w\<rparr> # ps) = (slug h, w) # enemiesOf ps"
  by (simp add: enemiesOf_def)

lemma enemiesOf_empty: "enemiesOf (\<lparr>pick_hero = None, weight = w\<rparr> # ps) = enemiesOf ps"
  by (simp add: enemiesOf_def)

lemma no_slugs_no_enemies:
  assumes "slugsNonEmpty picks" "selectedEnemySlugs picks = []"
  shows "enemiesOf picks = []"
  using assms
proof (induction picks)
  case Nil
  show ?case by (simp add: enemiesOf_def)
next
  case (Cons p picks)
  then show ?case
    by (cases "pick_hero p")
       (auto simp: slugsNonEmpty_def selectedEnemySlugs_def enemiesOf_def List.map_filter_simps
             split: if_splits)
qed

lemma candidate_no_enemies: "candidate [] entry = None"
  by (simp add: candidate_closed weightTotalOf_closed matchedRecords_Nil)

lemma candidateResults_wellformed:
  assumes "slugsNonEmpty picks"
  shows "candidateResults data picks =
     sort_key (\<lambda>r. - combined r) (List.map_filter (candidate (enemiesOf picks)) data)"
proof (cases "selectedEnemySlugs picks = []")
  case True
  from no_slugs_no_enemies [OF assms True]
  have "List.map_filter (candidate (enemiesOf picks)) data = []"
    by (simp add: candidate_no_enemies List.map_filter_def)
  with True show ?thesis by (simp add: candidateResults_sorted)
next
  case False
  then show ?thesis by (simp add: candidateResults_sorted)
qed

text \<open>A slot of weight 0, or of a hero nobody has a record against, whatever its slug.\<close>

lemma silent_slot_no_enemies:
  assumes "w = 0 \<or> (\<forall>entry \<in> set data. snd entry b = None)"
  shows "List.map_filter (candidate [(b, w)]) data = []"
proof -
  have "candidate [(b, w)] entry = None" if "entry \<in> set data" for entry
    using assms that
    by (cases "snd entry b")
       (auto simp: candidate_closed weightTotalOf_closed matchedRecords_Cons matchedRecords_Nil)
  then show ?thesis by (induction data) (simp_all add: List.map_filter_simps)
qed

lemma selectedEnemySlugs_append:
  "selectedEnemySlugs (ps1 @ ps2) = selectedEnemySlugs ps1 @ selectedEnemySlugs ps2"
  by (simp add: selectedEnemySlugs_def List.map_filter_def)

lemma selectedEnemySlugs_empty_slot:
  "selectedEnemySlugs (\<lparr>pick_hero = None, weight = w\<rparr> # ps) = selectedEnemySlugs ps"
  by (simp add: selectedEnemySlugs_def List.map_filter_simps)

lemma candidateResults_empty_slot:
  "candidateResults data (ps1 @ \<lparr>pick_hero = None, weight = w\<rparr> # ps2) =
   candidateResults data (ps1 @ ps2)"
  by (simp add: candidateResults_sorted selectedEnemySlugs_append selectedEnemySlugs_empty_slot
      enemiesOf_append enemiesOf_empty)

lemma slugsNonEmpty_insert:
  "slugsNonEmpty (ps1 @ p # ps2) \<longleftrightarrow>
     slugsNonEmpty (ps1 @ ps2) \<and> (\<forall>h. pick_hero p = Some h \<longrightarrow> slug h \<noteq> [])"
  by (auto simp: slugsNonEmpty_def)

lemma scoreOf_wellformed:
  assumes "distinct (map fst data)" "(H, m) \<in> set data" "slugsNonEmpty picks"
  shows "scoreOf H (candidateResults data picks) =
     map_option combined (candidate (enemiesOf picks) (H, m))"
proof (cases "selectedEnemySlugs picks = []")
  case True
  from no_slugs_no_enemies [OF assms(3) True] True show ?thesis
    by (simp add: scoreOf_candidateResults [OF assms(1,2)] candidate_no_enemies)
next
  case False
  then show ?thesis by (simp add: scoreOf_candidateResults [OF assms(1,2)])
qed

lemma scoreOf_silent_slot:
  assumes "distinct (map fst data)" "(H, m) \<in> set data" "slugsNonEmpty (ps1 @ ps2)"
    and "H \<noteq> slug B" "w = 0 \<or> m (slug B) = None"
  shows "scoreOf H (candidateResults data (ps1 @ \<lparr>pick_hero = Some B, weight = w\<rparr> # ps2)) =
         scoreOf H (candidateResults data (ps1 @ ps2))"
proof -
  let ?Z = "ps1 @ \<lparr>pick_hero = Some B, weight = w\<rparr> # ps2"
  let ?X = "map_option combined (candidate (enemiesOf (ps1 @ ps2)) (H, m))"
  have ez: "enemiesOf ?Z = enemiesOf ps1 @ (slug B, w) # enemiesOf ps2"
    by (simp add: enemiesOf_append enemiesOf_held)
  have x: "map_option combined (candidate (enemiesOf ?Z) (H, m)) = ?X"
    unfolding enemiesOf_append enemiesOf_held
    by (rule candidate_combined_insert_silent [where m = m and b = "slug B" and w = w and H = H,
          OF assms(4,5)])
  have e: "scoreOf H (candidateResults data (ps1 @ ps2)) = ?X"
    by (rule scoreOf_wellformed [OF assms(1,2,3)])
  have "scoreOf H (candidateResults data ?Z) = ?X"
  proof (cases "selectedEnemySlugs ?Z = []")
    case True
    then have "selectedEnemySlugs (ps1 @ ps2) = []"
      by (auto simp: selectedEnemySlugs_def List.map_filter_def split: if_splits)
    from no_slugs_no_enemies [OF assms(3) this] have "?X = None"
      by (simp add: candidate_no_enemies)
    with True show ?thesis by (simp add: scoreOf_candidateResults [OF assms(1,2)])
  next
    case False
    with x show ?thesis by (simp add: scoreOf_candidateResults [OF assms(1,2)])
  qed
  with e show ?thesis by simp
qed

lemma scoreOf_single:
  assumes "distinct (map fst data)" "(H, m) \<in> set data"
    and "m (slug A) = Some wr" "H \<noteq> slug A" "slug A \<noteq> []"
  shows "scoreOf H (candidateResults data [\<lparr>pick_hero = Some A, weight = 1\<rparr>]) =
         Some (logOddsToPct (pctToLogOdds wr))"
proof -
  have sel: "selectedEnemySlugs [\<lparr>pick_hero = Some A, weight = 1\<rparr>] \<noteq> []"
    using assms(5) by (simp add: selectedEnemySlugs_def List.map_filter_simps)
  have "candidate (enemiesOf [\<lparr>pick_hero = Some A, weight = 1\<rparr>]) (H, m) =
        Some \<lparr>hero = H, combined = logOddsToPct (pctToLogOdds wr),
              perEnemy = [\<lparr>enemy = slug A, winrate = Some wr\<rparr>]\<rparr>"
    using assms(3,4) by (simp add: candidate_def enemiesOf_def)
  with sel show ?thesis by (simp add: scoreOf_candidateResults [OF assms(1,2)])
qed

text \<open>
  C5. Let the dataset have distinct keys and the entry \<open>(H, m)\<close>, let \<open>m\<close> have a record
  against \<open>A\<close> and none against \<open>B\<close>, and let \<open>H\<close> be a candidate, that is neither \<open>A\<close>
  nor \<open>B\<close> (the slug of \<open>A\<close> not being empty). Then the combined score of \<open>H\<close> with
  \<open>A\<close> and \<open>B\<close> selected, each with weight 1, equals its combined score with only \<open>A\<close>
  selected, which is the score of \<open>A\<close>'s record alone. More generally, in any pick
  sequence (of non-empty slugs) the score of \<open>H\<close> is the same whether a slot holds \<open>B\<close>,
  with any weight, or is empty.
\<close>

theorem missing_data_renormalization:
  "(\<forall>data H m A B wr.
      distinct (map fst data) \<and> (H, m) \<in> set data \<and>
      m (slug A) = Some wr \<and> m (slug B) = None \<and>
      H \<noteq> slug A \<and> H \<noteq> slug B \<and> slug A \<noteq> [] \<longrightarrow>
      scoreOf H (candidateResults data
        [\<lparr>pick_hero = Some A, weight = 1\<rparr>, \<lparr>pick_hero = Some B, weight = 1\<rparr>]) =
      scoreOf H (candidateResults data [\<lparr>pick_hero = Some A, weight = 1\<rparr>]) \<and>
      scoreOf H (candidateResults data [\<lparr>pick_hero = Some A, weight = 1\<rparr>]) =
      Some (logOddsToPct (pctToLogOdds wr))) \<and>
   (\<forall>data H m B ps1 ps2 w w'.
      distinct (map fst data) \<and> (H, m) \<in> set data \<and> m (slug B) = None \<and> H \<noteq> slug B \<and>
      slugsNonEmpty (ps1 @ ps2) \<longrightarrow>
      scoreOf H (candidateResults data (ps1 @ \<lparr>pick_hero = Some B, weight = w\<rparr> # ps2)) =
      scoreOf H (candidateResults data (ps1 @ \<lparr>pick_hero = None, weight = w'\<rparr> # ps2)))"
proof (intro conjI allI impI)
  fix data :: matchupData and H m and A B :: Hero and wr
  assume h: "distinct (map fst data) \<and> (H, m) \<in> set data \<and>
      m (slug A) = Some wr \<and> m (slug B) = None \<and>
      H \<noteq> slug A \<and> H \<noteq> slug B \<and> slug A \<noteq> []"
  let ?A = "\<lparr>pick_hero = Some A, weight = 1\<rparr>"
  have wf: "slugsNonEmpty ([?A] @ [])" using h by (simp add: slugsNonEmpty_def)
  from h have "scoreOf H (candidateResults data ([?A] @ \<lparr>pick_hero = Some B, weight = 1\<rparr> # [])) =
      scoreOf H (candidateResults data ([?A] @ []))"
    by (intro scoreOf_silent_slot [where m = m] wf) simp_all
  then show "scoreOf H (candidateResults data [?A, \<lparr>pick_hero = Some B, weight = 1\<rparr>]) =
      scoreOf H (candidateResults data [?A])"
    by simp
  from h show "scoreOf H (candidateResults data [?A]) = Some (logOddsToPct (pctToLogOdds wr))"
    by (intro scoreOf_single [where m = m]) simp_all
next
  fix data :: matchupData and H m and B :: Hero and ps1 ps2 :: "EnemyPick list" and w w' :: real
  assume h: "distinct (map fst data) \<and> (H, m) \<in> set data \<and> m (slug B) = None \<and> H \<noteq> slug B \<and>
      slugsNonEmpty (ps1 @ ps2)"
  then have "scoreOf H (candidateResults data (ps1 @ \<lparr>pick_hero = Some B, weight = w\<rparr> # ps2)) =
      scoreOf H (candidateResults data (ps1 @ ps2))"
    by (intro scoreOf_silent_slot [where m = m]) simp_all
  then show "scoreOf H (candidateResults data (ps1 @ \<lparr>pick_hero = Some B, weight = w\<rparr> # ps2)) =
      scoreOf H (candidateResults data (ps1 @ \<lparr>pick_hero = None, weight = w'\<rparr> # ps2))"
    by (simp add: candidateResults_empty_slot)
qed

theorem missing_data_renormalization_witness:
  "distinct (map fst [(''juggernaut'', [''axe'' \<mapsto> (55::real)])]) \<and>
   (''juggernaut'', [''axe'' \<mapsto> 55]) \<in> set [(''juggernaut'', [''axe'' \<mapsto> (55::real)])] \<and>
   scoreOf ''juggernaut'' (candidateResults [(''juggernaut'', [''axe'' \<mapsto> 55])]
      [pick ''axe'' 1, pick ''zeus'' 1]) = Some 55 \<and>
   scoreOf ''juggernaut'' (candidateResults [(''juggernaut'', [''axe'' \<mapsto> 55])]
      [pick ''axe'' 1]) = Some 55 \<and>
   slugsNonEmpty ([pick ''axe'' 1] @ [emptySlot 0.5]) \<and>
   scoreOf ''juggernaut'' (candidateResults [(''juggernaut'', [''axe'' \<mapsto> 55])]
      ([pick ''axe'' 1] @ pick ''zeus'' 0.3 # [emptySlot 0.5])) =
   scoreOf ''juggernaut'' (candidateResults [(''juggernaut'', [''axe'' \<mapsto> 55])]
      ([pick ''axe'' 1] @ emptySlot 0.3 # [emptySlot 0.5]))"
proof -
  let ?D = "[(''juggernaut'', [''axe'' \<mapsto> (55::real)])]"
  let ?m = "[''axe'' \<mapsto> (55::real)]"
  let ?A = "\<lparr>slug = ''axe'', name = ''axe'', image = ''/content/images/heroes/'' @ ''axe'' @ ''.png''\<rparr>"
  let ?B = "\<lparr>slug = ''zeus'', name = ''zeus'', image = ''/content/images/heroes/'' @ ''zeus'' @ ''.png''\<rparr>"
  have rt: "logOddsToPct (pctToLogOdds 55) = 55"
    by (rule logOddsToPct_pctToLogOdds) simp_all
  have d: "distinct (map fst ?D) \<and> (''juggernaut'', ?m) \<in> set ?D" by simp
  have h1: "distinct (map fst ?D) \<and> (''juggernaut'', ?m) \<in> set ?D \<and>
      ?m (slug ?A) = Some 55 \<and> ?m (slug ?B) = None \<and>
      ''juggernaut'' \<noteq> slug ?A \<and> ''juggernaut'' \<noteq> slug ?B \<and> slug ?A \<noteq> []"
    by simp
  have wf: "slugsNonEmpty ([pick ''axe'' 1] @ [emptySlot 0.5])"
    by (simp add: slugsNonEmpty_def pick_def emptySlot_def)
  have h2: "distinct (map fst ?D) \<and> (''juggernaut'', ?m) \<in> set ?D \<and> ?m (slug ?B) = None \<and>
      ''juggernaut'' \<noteq> slug ?B \<and> slugsNonEmpty ([pick ''axe'' 1] @ [emptySlot 0.5])"
    using wf by simp
  from missing_data_renormalization h1
  have "scoreOf ''juggernaut'' (candidateResults ?D
        [\<lparr>pick_hero = Some ?A, weight = 1\<rparr>, \<lparr>pick_hero = Some ?B, weight = 1\<rparr>]) =
      scoreOf ''juggernaut'' (candidateResults ?D [\<lparr>pick_hero = Some ?A, weight = 1\<rparr>]) \<and>
      scoreOf ''juggernaut'' (candidateResults ?D [\<lparr>pick_hero = Some ?A, weight = 1\<rparr>]) =
      Some (logOddsToPct (pctToLogOdds 55))"
    by blast
  then have c1: "scoreOf ''juggernaut'' (candidateResults ?D [pick ''axe'' 1, pick ''zeus'' 1]) = Some 55 \<and>
      scoreOf ''juggernaut'' (candidateResults ?D [pick ''axe'' 1]) = Some 55"
    by (simp add: pick_def rt)
  from missing_data_renormalization h2
  have "scoreOf ''juggernaut'' (candidateResults ?D
          ([pick ''axe'' 1] @ \<lparr>pick_hero = Some ?B, weight = 0.3\<rparr> # [emptySlot 0.5])) =
        scoreOf ''juggernaut'' (candidateResults ?D
          ([pick ''axe'' 1] @ \<lparr>pick_hero = None, weight = 0.3\<rparr> # [emptySlot 0.5]))"
    by blast
  then have c2: "scoreOf ''juggernaut'' (candidateResults ?D
          ([pick ''axe'' 1] @ pick ''zeus'' 0.3 # [emptySlot 0.5])) =
        scoreOf ''juggernaut'' (candidateResults ?D
          ([pick ''axe'' 1] @ emptySlot 0.3 # [emptySlot 0.5]))"
    by (simp add: pick_def emptySlot_def)
  from d c1 wf c2 show ?thesis by blast
qed

subsection \<open>A slot of weight 0 (C3)\<close>

text \<open>
  With juggernaut (55 against axe, 40 against zeus) and zeus (50 against axe) in the
  dataset and axe picked with weight 1, a second slot that holds zeus with weight 0 and
  the same slot left empty give different results: zeus is a candidate only when the
  slot is empty, and juggernaut's breakdown has an entry for zeus only when the slot
  holds zeus.
\<close>

theorem zero_weight_slot_not_empty_slot:
  "candidateResults
     [(''juggernaut'', [''axe'' \<mapsto> 55, ''zeus'' \<mapsto> 40]), (''zeus'', [''axe'' \<mapsto> 50])]
     [pick ''axe'' 1, pick ''zeus'' 0] \<noteq>
   candidateResults
     [(''juggernaut'', [''axe'' \<mapsto> 55, ''zeus'' \<mapsto> 40]), (''zeus'', [''axe'' \<mapsto> 50])]
     [pick ''axe'' 1, emptySlot 0] \<and>
   candidateResults
     [(''juggernaut'', [''axe'' \<mapsto> 55, ''zeus'' \<mapsto> 40]), (''zeus'', [''axe'' \<mapsto> 50])]
     [pick ''axe'' 1, pick ''zeus'' 0] =
     [\<lparr>hero = ''juggernaut'', combined = 55,
       perEnemy = [\<lparr>enemy = ''axe'', winrate = Some 55\<rparr>, \<lparr>enemy = ''zeus'', winrate = Some 40\<rparr>]\<rparr>] \<and>
   candidateResults
     [(''juggernaut'', [''axe'' \<mapsto> 55, ''zeus'' \<mapsto> 40]), (''zeus'', [''axe'' \<mapsto> 50])]
     [pick ''axe'' 1, emptySlot 0] =
     [\<lparr>hero = ''juggernaut'', combined = 55, perEnemy = [\<lparr>enemy = ''axe'', winrate = Some 55\<rparr>]\<rparr>,
      \<lparr>hero = ''zeus'', combined = 50, perEnemy = [\<lparr>enemy = ''axe'', winrate = Some 50\<rparr>]\<rparr>]"
proof -
  let ?D = "[(''juggernaut'', [''axe'' \<mapsto> (55::real), ''zeus'' \<mapsto> 40]), (''zeus'', [''axe'' \<mapsto> 50])]"
  have rt: "logOddsToPct (pctToLogOdds 55) = 55"
    by (rule logOddsToPct_pctToLogOdds) simp_all
  have rt': "logOddsToPct (pctToLogOdds 50) = 50"
    by (rule logOddsToPct_pctToLogOdds) simp_all
  have z: "candidateResults ?D [pick ''axe'' 1, pick ''zeus'' 0] =
     [\<lparr>hero = ''juggernaut'', combined = 55,
       perEnemy = [\<lparr>enemy = ''axe'', winrate = Some 55\<rparr>, \<lparr>enemy = ''zeus'', winrate = Some 40\<rparr>]\<rparr>]"
    by (simp add: eval_simps rt)
  have e: "candidateResults ?D [pick ''axe'' 1, emptySlot 0] =
     [\<lparr>hero = ''juggernaut'', combined = 55, perEnemy = [\<lparr>enemy = ''axe'', winrate = Some 55\<rparr>]\<rparr>,
      \<lparr>hero = ''zeus'', combined = 50, perEnemy = [\<lparr>enemy = ''axe'', winrate = Some 50\<rparr>]\<rparr>]"
    by (simp add: eval_simps rt rt')
  have "candidateResults ?D [pick ''axe'' 1, pick ''zeus'' 0] \<noteq>
        candidateResults ?D [pick ''axe'' 1, emptySlot 0]"
    unfolding z e by simp
  with z e show ?thesis by blast
qed

lemma zero_slot_candidates:
  "map (dropEntry (length es1)) (List.map_filter (candidate (es1 @ (b, 0) # es2)) data) =
   filter (\<lambda>r. hero r \<noteq> b) (List.map_filter (candidate (es1 @ es2)) data)"
proof (induction data)
  case Nil
  show ?case by (simp add: List.map_filter_simps)
next
  case (Cons entry data)
  obtain H m where entry: "entry = (H, m)" by (cases entry)
  show ?case
  proof (cases "H = b")
    case True
    have z: "candidate (es1 @ (b, 0) # es2) (b, m) = None" by (rule candidate_enemy_itself)
    show ?thesis
      using Cons.IH True z
      by (cases "candidate (es1 @ es2) (b, m)")
         (auto simp: entry List.map_filter_simps dest: candidate_hero)
  next
    case False
    have "map_option (dropEntry (length es1)) (candidate (es1 @ (b, 0) # es2) (H, m)) =
          candidate (es1 @ es2) (H, m)"
      by (rule candidate_insert_silent [where m = m and b = b and H = H and w = 0, OF False]) simp
    then have eq: "candidate (es1 @ es2) (H, m) =
          map_option (dropEntry (length es1)) (candidate (es1 @ (b, 0) # es2) (H, m))"
      by simp
    show ?thesis
    proof (cases "candidate (es1 @ (b, 0) # es2) (H, m)")
      case None
      with eq Cons.IH show ?thesis by (simp add: entry List.map_filter_simps)
    next
      case (Some a)
      from candidate_hero [OF Some] have "hero a = H" by simp
      with eq Some Cons.IH False show ?thesis
        by (simp add: entry List.map_filter_simps hero_dropEntry)
    qed
  qed
qed

lemma candidateResults_zero_slot:
  assumes "slugsNonEmpty (ps1 @ ps2)"
  shows "candidateResults data (ps1 @ \<lparr>pick_hero = Some h, weight = 0\<rparr> # ps2) =
     sort_key (\<lambda>r. - combined r)
       (List.map_filter (candidate (enemiesOf ps1 @ (slug h, 0) # enemiesOf ps2)) data)"
proof (cases "selectedEnemySlugs (ps1 @ \<lparr>pick_hero = Some h, weight = 0\<rparr> # ps2) = []")
  case True
  then have "selectedEnemySlugs (ps1 @ ps2) = []"
    by (auto simp: selectedEnemySlugs_def List.map_filter_def split: if_splits)
  from no_slugs_no_enemies [OF assms this] have "enemiesOf ps1 = []" "enemiesOf ps2 = []"
    by (simp_all add: enemiesOf_append)
  with True show ?thesis
    by (simp add: candidateResults_sorted silent_slot_no_enemies)
next
  case False
  then show ?thesis
    by (simp add: candidateResults_sorted enemiesOf_append enemiesOf_held)
qed

lemma zero_slot_results:
  assumes "slugsNonEmpty (ps1 @ ps2)"
  shows "map (dropEntry (length (enemiesOf ps1)))
           (candidateResults data (ps1 @ \<lparr>pick_hero = Some h, weight = 0\<rparr> # ps2)) =
         filter (\<lambda>r. hero r \<noteq> slug h)
           (candidateResults data (ps1 @ \<lparr>pick_hero = None, weight = w\<rparr> # ps2))"
proof -
  let ?k = "length (enemiesOf ps1)"
  let ?f = "\<lambda>r :: CounterResult. - combined r"
  have "map (dropEntry ?k) (candidateResults data (ps1 @ \<lparr>pick_hero = Some h, weight = 0\<rparr> # ps2)) =
        sort_key ?f (map (dropEntry ?k)
          (List.map_filter (candidate (enemiesOf ps1 @ (slug h, 0) # enemiesOf ps2)) data))"
    unfolding candidateResults_zero_slot [OF assms]
    by (rule map_sort_key) (simp add: combined_dropEntry)
  also have "\<dots> = sort_key ?f (filter (\<lambda>r. hero r \<noteq> slug h)
          (List.map_filter (candidate (enemiesOf ps1 @ enemiesOf ps2)) data))"
    by (simp only: zero_slot_candidates)
  also have "\<dots> = filter (\<lambda>r. hero r \<noteq> slug h) (candidateResults data (ps1 @ ps2))"
    by (simp only: filter_sort candidateResults_wellformed [OF assms] enemiesOf_append)
  finally show ?thesis by (simp only: candidateResults_empty_slot)
qed

lemma zero_slot_entry:
  assumes "r \<in> set (candidateResults data (ps1 @ \<lparr>pick_hero = Some h, weight = 0\<rparr> # ps2))"
  shows "length (enemiesOf ps1) < length (perEnemy r) \<and>
         enemy (perEnemy r ! length (enemiesOf ps1)) = slug h"
proof -
  from in_candidateResults [OF assms] obtain entry
    where "candidate (enemiesOf (ps1 @ \<lparr>pick_hero = Some h, weight = 0\<rparr> # ps2)) entry = Some r"
    by auto
  then have "perEnemy r =
      map (\<lambda>(e, w). \<lparr>enemy = e, winrate = snd entry e\<rparr>)
        (enemiesOf ps1 @ (slug h, 0) # enemiesOf ps2)"
    by (auto simp: candidate_closed enemiesOf_append enemiesOf_held split: if_splits)
  then show ?thesis by (simp add: nth_append)
qed

text \<open>
  C3, as the code has it. In a pick sequence whose other slots hold heroes of non-empty
  slugs, a slot that holds \<open>h\<close> with weight 0 adds nothing to any weighted sum or weight
  total: the result is, in the same order and with the same combined scores, the result
  for the same sequence with that slot empty, without the row of \<open>h\<close> itself, and with
  one more entry in every per-enemy breakdown, the entry of \<open>h\<close> at the place of the
  slot; with that entry taken out the rows are the same.
\<close>

theorem zero_weight_slot:
  "\<forall>data ps1 ps2 h w.
     slugsNonEmpty (ps1 @ ps2) \<longrightarrow>
     map (dropEntry (length (enemiesOf ps1)))
       (candidateResults data (ps1 @ \<lparr>pick_hero = Some h, weight = 0\<rparr> # ps2)) =
     filter (\<lambda>r. hero r \<noteq> slug h)
       (candidateResults data (ps1 @ \<lparr>pick_hero = None, weight = w\<rparr> # ps2)) \<and>
     (\<forall>r \<in> set (candidateResults data (ps1 @ \<lparr>pick_hero = Some h, weight = 0\<rparr> # ps2)).
        length (enemiesOf ps1) < length (perEnemy r) \<and>
        enemy (perEnemy r ! length (enemiesOf ps1)) = slug h)"
proof (intro allI impI conjI ballI)
  fix data :: matchupData and ps1 ps2 :: "EnemyPick list" and h :: Hero and w :: real
  assume "slugsNonEmpty (ps1 @ ps2)"
  then show "map (dropEntry (length (enemiesOf ps1)))
       (candidateResults data (ps1 @ \<lparr>pick_hero = Some h, weight = 0\<rparr> # ps2)) =
     filter (\<lambda>r. hero r \<noteq> slug h)
       (candidateResults data (ps1 @ \<lparr>pick_hero = None, weight = w\<rparr> # ps2))"
    by (rule zero_slot_results)
next
  fix data :: matchupData and ps1 ps2 :: "EnemyPick list" and h :: Hero and r
  assume "r \<in> set (candidateResults data (ps1 @ \<lparr>pick_hero = Some h, weight = 0\<rparr> # ps2))"
  from zero_slot_entry [OF this]
  show "length (enemiesOf ps1) < length (perEnemy r)"
    and "enemy (perEnemy r ! length (enemiesOf ps1)) = slug h"
    by simp_all
qed

theorem zero_weight_slot_witness:
  "slugsNonEmpty ([pick ''axe'' 1] @ []) \<and>
   map (dropEntry (length (enemiesOf [pick ''axe'' 1])))
     (candidateResults
        [(''juggernaut'', [''axe'' \<mapsto> 55, ''zeus'' \<mapsto> 40]), (''zeus'', [''axe'' \<mapsto> 50])]
        ([pick ''axe'' 1] @ pick ''zeus'' 0 # [])) =
   [\<lparr>hero = ''juggernaut'', combined = 55, perEnemy = [\<lparr>enemy = ''axe'', winrate = Some 55\<rparr>]\<rparr>] \<and>
   filter (\<lambda>r. hero r \<noteq> ''zeus'')
     (candidateResults
        [(''juggernaut'', [''axe'' \<mapsto> 55, ''zeus'' \<mapsto> 40]), (''zeus'', [''axe'' \<mapsto> 50])]
        ([pick ''axe'' 1] @ emptySlot 0 # [])) =
   [\<lparr>hero = ''juggernaut'', combined = 55, perEnemy = [\<lparr>enemy = ''axe'', winrate = Some 55\<rparr>]\<rparr>]"
proof -
  let ?D = "[(''juggernaut'', [''axe'' \<mapsto> (55::real), ''zeus'' \<mapsto> 40]), (''zeus'', [''axe'' \<mapsto> 50])]"
  let ?Z = "\<lparr>slug = ''zeus'', name = ''zeus'', image = ''/content/images/heroes/'' @ ''zeus'' @ ''.png''\<rparr>"
  have rt: "logOddsToPct (pctToLogOdds 55) = 55"
    by (rule logOddsToPct_pctToLogOdds) simp_all
  have rt': "logOddsToPct (pctToLogOdds 50) = 50"
    by (rule logOddsToPct_pctToLogOdds) simp_all
  have wf: "slugsNonEmpty ([pick ''axe'' 1] @ [])"
    by (simp add: slugsNonEmpty_def pick_def)
  have e: "filter (\<lambda>r. hero r \<noteq> ''zeus'') (candidateResults ?D ([pick ''axe'' 1] @ emptySlot 0 # [])) =
     [\<lparr>hero = ''juggernaut'', combined = 55, perEnemy = [\<lparr>enemy = ''axe'', winrate = Some 55\<rparr>]\<rparr>]"
    by (simp add: eval_simps rt rt')
  from zero_weight_slot wf
  have "map (dropEntry (length (enemiesOf [pick ''axe'' 1])))
       (candidateResults ?D ([pick ''axe'' 1] @ \<lparr>pick_hero = Some ?Z, weight = 0\<rparr> # [])) =
     filter (\<lambda>r. hero r \<noteq> slug ?Z)
       (candidateResults ?D ([pick ''axe'' 1] @ \<lparr>pick_hero = None, weight = 0\<rparr> # []))"
    by blast
  then have "map (dropEntry (length (enemiesOf [pick ''axe'' 1])))
       (candidateResults ?D ([pick ''axe'' 1] @ pick ''zeus'' 0 # [])) =
     filter (\<lambda>r. hero r \<noteq> ''zeus'')
       (candidateResults ?D ([pick ''axe'' 1] @ emptySlot 0 # []))"
    by (simp add: pick_def emptySlot_def)
  with wf e show ?thesis by simp
qed

section \<open>Loading the matchup files (C4)\<close>

lemma promiseAll_catchNull:
  "promiseAll (map (\<lambda>x. catchNull (f x)) xs) = Resolved (map (\<lambda>x. bodyOf (f x)) xs)"
proof (induction xs)
  case Nil
  show ?case by simp
next
  case (Cons x xs)
  then show ?case by (cases "f x") (simp_all add: catchNull_def bodyOf_def)
qed

lemma loadMatchups_closed:
  "loadMatchups fetchJson heroSlugs =
     (case buildAcc (map (\<lambda>slug. bodyOf (fetchJson slug)) heroSlugs) [] of
        Inl e \<Rightarrow> Rejected
      | Inr d \<Rightarrow> Resolved d)"
  by (simp add: loadMatchups_def promiseAll_catchNull thenP_def)

lemma getProp_Some_truthy: "getProp f k = Some v \<Longrightarrow> truthy f"
  by (cases f) simp_all

lemma hasOpponent_iff: "hasOpponent m \<longleftrightarrow> (\<exists>s. getProp m ''opponent'' = Some (JStr s))"
  by (auto simp: hasOpponent_def split: option.splits json.splits)

lemma matchupShaped_iff:
  "matchupShaped f \<longleftrightarrow>
     (\<exists>h ms. getProp f ''hero'' = Some (JStr h) \<and> getProp f ''matchups'' = Some (JArr ms) \<and>
             list_all hasOpponent ms)"
  by (auto simp: matchupShaped_def split: option.splits json.splits)

lemma buildMap_ok:
  assumes "list_all hasOpponent ms"
  shows "\<exists>mp'. buildMap ms mp = Inr mp'"
  using assms
proof (induction ms arbitrary: mp)
  case Nil
  show ?case by simp
next
  case (Cons m ms)
  from Cons.prems obtain s where s: "getProp m ''opponent'' = Some (JStr s)"
    by (auto simp: hasOpponent_iff)
  from Cons.prems have "list_all hasOpponent ms" by simp
  from Cons.IH [OF this] show ?case by (simp add: s)
qed

lemma buildAcc_falsy: "\<not> truthy f \<Longrightarrow> buildAcc (f # fs) acc = buildAcc fs acc"
  by simp

lemma buildAcc_shaped:
  assumes "getProp f ''hero'' = Some (JStr h)" "getProp f ''matchups'' = Some (JArr ms)"
    and "buildMap ms Map.empty = Inr mp"
  shows "buildAcc (f # fs) acc = buildAcc fs (AList.update (toLowerCase h) mp acc)"
  using assms getProp_Some_truthy [OF assms(1)] by simp

lemma set_update_subset: "set (AList.update k v al) \<subseteq> insert (k, v) (set al)"
  by (induction al) auto

lemma buildAcc_ok:
  assumes "\<forall>f \<in> set files. \<not> truthy f \<or> matchupShaped f"
  shows "\<exists>d. buildAcc files acc = Inr d \<and>
     fst ` set d =
       fst ` set acc \<union> {toLowerCase h | h f. f \<in> set files \<and> getProp f ''hero'' = Some (JStr h)} \<and>
     (distinct (map fst acc) \<longrightarrow> distinct (map fst d)) \<and>
     (\<forall>k m. (k, m) \<in> set d \<longrightarrow>
        (k, m) \<in> set acc \<or>
        (\<exists>f h ms. f \<in> set files \<and> getProp f ''hero'' = Some (JStr h) \<and> k = toLowerCase h \<and>
                   getProp f ''matchups'' = Some (JArr ms) \<and> buildMap ms Map.empty = Inr m))"
  using assms
proof (induction files arbitrary: acc)
  case Nil
  show ?case by simp
next
  case (Cons f files)
  from Cons.prems have rest: "\<forall>f \<in> set files. \<not> truthy f \<or> matchupShaped f" by simp
  show ?case
  proof (cases "truthy f")
    case False
    then have none: "getProp f ''hero'' = None"
      by (cases f) simp_all
    from Cons.IH [OF rest, of acc] obtain d where d: "buildAcc files acc = Inr d"
      and keys: "fst ` set d =
        fst ` set acc \<union> {toLowerCase h | h f. f \<in> set files \<and> getProp f ''hero'' = Some (JStr h)}"
      and dist: "distinct (map fst acc) \<longrightarrow> distinct (map fst d)"
      and ent: "\<forall>k m. (k, m) \<in> set d \<longrightarrow>
        (k, m) \<in> set acc \<or>
        (\<exists>f h ms. f \<in> set files \<and> getProp f ''hero'' = Some (JStr h) \<and> k = toLowerCase h \<and>
                   getProp f ''matchups'' = Some (JArr ms) \<and> buildMap ms Map.empty = Inr m)"
      by blast
    have "buildAcc (f # files) acc = Inr d" using False d by simp
    moreover have "fst ` set d =
        fst ` set acc \<union>
        {toLowerCase h | h g. g \<in> set (f # files) \<and> getProp g ''hero'' = Some (JStr h)}"
      unfolding keys using none by auto
    moreover have "\<forall>k m. (k, m) \<in> set d \<longrightarrow>
        (k, m) \<in> set acc \<or>
        (\<exists>g h ms. g \<in> set (f # files) \<and> getProp g ''hero'' = Some (JStr h) \<and> k = toLowerCase h \<and>
                   getProp g ''matchups'' = Some (JArr ms) \<and> buildMap ms Map.empty = Inr m)"
      using ent by (meson list.set_intros(2))
    ultimately show ?thesis using dist by blast
  next
    case True
    with Cons.prems have "matchupShaped f" by simp
    then obtain h ms where h: "getProp f ''hero'' = Some (JStr h)"
      and ms: "getProp f ''matchups'' = Some (JArr ms)" and ok: "list_all hasOpponent ms"
      by (auto simp: matchupShaped_iff)
    from buildMap_ok [OF ok] obtain mp where mp: "buildMap ms Map.empty = Inr mp" by blast
    let ?acc = "AList.update (toLowerCase h) mp acc"
    have step: "buildAcc (f # files) acc = buildAcc files ?acc"
      by (rule buildAcc_shaped [OF h ms mp])
    from Cons.IH [OF rest, of ?acc] obtain d where d: "buildAcc files ?acc = Inr d"
      and keys: "fst ` set d =
        fst ` set ?acc \<union> {toLowerCase h | h f. f \<in> set files \<and> getProp f ''hero'' = Some (JStr h)}"
      and dist: "distinct (map fst ?acc) \<longrightarrow> distinct (map fst d)"
      and ent: "\<forall>k m. (k, m) \<in> set d \<longrightarrow>
        (k, m) \<in> set ?acc \<or>
        (\<exists>f h ms. f \<in> set files \<and> getProp f ''hero'' = Some (JStr h) \<and> k = toLowerCase h \<and>
                   getProp f ''matchups'' = Some (JArr ms) \<and> buildMap ms Map.empty = Inr m)"
      by blast
    have "buildAcc (f # files) acc = Inr d" using step d by simp
    moreover have "fst ` set d =
        fst ` set acc \<union>
        {toLowerCase h | h g. g \<in> set (f # files) \<and> getProp g ''hero'' = Some (JStr h)}"
      unfolding keys dom_update using h by auto
    moreover have "distinct (map fst acc) \<longrightarrow> distinct (map fst d)"
      using dist by (simp add: distinct_update)
    moreover have "(k, m) \<in> set acc \<or>
        (\<exists>g h ms. g \<in> set (f # files) \<and> getProp g ''hero'' = Some (JStr h) \<and> k = toLowerCase h \<and>
                   getProp g ''matchups'' = Some (JArr ms) \<and> buildMap ms Map.empty = Inr m)"
      if km: "(k, m) \<in> set d" for k m
    proof -
      from ent km consider "(k, m) \<in> set ?acc"
        | "\<exists>g h ms. g \<in> set files \<and> getProp g ''hero'' = Some (JStr h) \<and> k = toLowerCase h \<and>
                   getProp g ''matchups'' = Some (JArr ms) \<and> buildMap ms Map.empty = Inr m"
        by blast
      then show ?thesis
      proof cases
        case 1
        with set_update_subset [of "toLowerCase h" mp acc]
        have "(k, m) = (toLowerCase h, mp) \<or> (k, m) \<in> set acc" by auto
        then show ?thesis
        proof
          assume "(k, m) = (toLowerCase h, mp)"
          with h ms mp have "f \<in> set (f # files) \<and> getProp f ''hero'' = Some (JStr h) \<and>
              k = toLowerCase h \<and> getProp f ''matchups'' = Some (JArr ms) \<and>
              buildMap ms Map.empty = Inr m"
            by simp
          then show ?thesis by blast
        next
          assume "(k, m) \<in> set acc"
          then show ?thesis by simp
        qed
      next
        case 2
        then obtain g h' ms' where "g \<in> set files" "getProp g ''hero'' = Some (JStr h')"
          "k = toLowerCase h'" "getProp g ''matchups'' = Some (JArr ms')"
          "buildMap ms' Map.empty = Inr m"
          by blast
        then have "g \<in> set (f # files) \<and> getProp g ''hero'' = Some (JStr h') \<and>
            k = toLowerCase h' \<and> getProp g ''matchups'' = Some (JArr ms') \<and>
            buildMap ms' Map.empty = Inr m"
          by simp
        then show ?thesis by blast
      qed
    qed
    ultimately show ?thesis by blast
  qed
qed

lemma bodyOf_prop:
  "getProp (bodyOf p) k = Some v \<longleftrightarrow> (\<exists>j. p = Resolved j \<and> getProp j k = Some v)"
  by (cases p) (simp_all add: bodyOf_def)

lemma loadMatchups_ok:
  assumes "\<forall>slug \<in> set heroSlugs. \<forall>j. fetchJson slug = Resolved j \<longrightarrow> \<not> truthy j \<or> matchupShaped j"
  shows "\<exists>d. loadMatchups fetchJson heroSlugs = Resolved d \<and> distinct (map fst d) \<and>
     fst ` set d =
       {toLowerCase h | h slug j.
          slug \<in> set heroSlugs \<and> fetchJson slug = Resolved j \<and> getProp j ''hero'' = Some (JStr h)} \<and>
     (\<forall>k m. (k, m) \<in> set d \<longrightarrow>
        (\<exists>slug j h ms.
           slug \<in> set heroSlugs \<and> fetchJson slug = Resolved j \<and>
           getProp j ''hero'' = Some (JStr h) \<and> k = toLowerCase h \<and>
           getProp j ''matchups'' = Some (JArr ms) \<and> buildMap ms Map.empty = Inr m))"
proof -
  let ?files = "map (\<lambda>slug. bodyOf (fetchJson slug)) heroSlugs"
  have shaped: "\<forall>f \<in> set ?files. \<not> truthy f \<or> matchupShaped f"
  proof
    fix f assume "f \<in> set ?files"
    then obtain slug where slug: "slug \<in> set heroSlugs" and f: "f = bodyOf (fetchJson slug)"
      by auto
    show "\<not> truthy f \<or> matchupShaped f"
    proof (cases "fetchJson slug")
      case Rejected
      then show ?thesis by (simp add: f bodyOf_def)
    next
      case (Resolved j)
      with assms slug show ?thesis by (simp add: f bodyOf_def)
    qed
  qed
  from buildAcc_ok [OF shaped, of "[]"] obtain d where d: "buildAcc ?files [] = Inr d"
    and keys: "fst ` set d =
        {toLowerCase h | h f. f \<in> set ?files \<and> getProp f ''hero'' = Some (JStr h)}"
    and dist: "distinct (map fst d)"
    and ent: "\<forall>k m. (k, m) \<in> set d \<longrightarrow>
        (\<exists>f h ms. f \<in> set ?files \<and> getProp f ''hero'' = Some (JStr h) \<and> k = toLowerCase h \<and>
                   getProp f ''matchups'' = Some (JArr ms) \<and> buildMap ms Map.empty = Inr m)"
    by auto
  have "loadMatchups fetchJson heroSlugs = Resolved d"
    by (simp add: loadMatchups_closed d)
  moreover have "fst ` set d =
       {toLowerCase h | h slug j.
          slug \<in> set heroSlugs \<and> fetchJson slug = Resolved j \<and> getProp j ''hero'' = Some (JStr h)}"
    unfolding keys by (auto simp: bodyOf_prop)
  moreover have "\<exists>slug j h ms.
           slug \<in> set heroSlugs \<and> fetchJson slug = Resolved j \<and>
           getProp j ''hero'' = Some (JStr h) \<and> k = toLowerCase h \<and>
           getProp j ''matchups'' = Some (JArr ms) \<and> buildMap ms Map.empty = Inr m"
    if "(k, m) \<in> set d" for k m
  proof -
    from ent that obtain f h ms where f: "f \<in> set ?files"
      and h: "getProp f ''hero'' = Some (JStr h)" "k = toLowerCase h"
      and ms: "getProp f ''matchups'' = Some (JArr ms)" "buildMap ms Map.empty = Inr m"
      by blast
    from f obtain slug where slug: "slug \<in> set heroSlugs" and fb: "f = bodyOf (fetchJson slug)"
      by auto
    from h(1) fb have "fetchJson slug = Resolved f"
      by (cases "fetchJson slug") (simp_all add: bodyOf_def)
    with slug h ms show ?thesis by blast
  qed
  ultimately show ?thesis using dist by blast
qed

lemma loadMatchups_none:
  assumes "\<forall>slug \<in> set heroSlugs. fetchJson slug = Rejected"
  shows "loadMatchups fetchJson heroSlugs = Resolved []"
proof -
  have "buildAcc (map (\<lambda>slug. bodyOf (fetchJson slug)) heroSlugs) acc = Inr acc" for acc
    using assms by (induction heroSlugs) (simp_all add: bodyOf_def)
  then show ?thesis by (simp add: loadMatchups_closed)
qed

lemma update_not_Nil: "AList.update k v al \<noteq> []"
  by (cases al) simp_all

lemma readMatchups_nonempty:
  "fst (readMatchups ms (opps, tot)) \<noteq> [] \<longleftrightarrow> opps \<noteq> [] \<or> (\<exists>m \<in> set ms. completeMatchup m)"
proof (induction ms arbitrary: opps tot)
  case Nil
  show ?case by simp
next
  case (Cons m ms)
  show ?case
    by (cases "raw_winrate m"; cases "raw_matches m")
       (simp_all add: Cons.IH completeMatchup_def Let_def update_not_Nil)
qed

lemma loadFiles_step:
  "loadFiles readJson (file # files) data =
     (case (if endsWith file ''.json'' then readJson file else None) of
        None \<Rightarrow> loadFiles readJson files data
      | Some obj \<Rightarrow>
          if \<exists>m \<in> set (raw_matchups obj). completeMatchup m then
            loadFiles readJson files
              (AList.update (heroOfFile file obj)
                 \<lparr>opponents = map_of (fst (readMatchups (raw_matchups obj) ([], 0))),
                  totalMatches = snd (readMatchups (raw_matchups obj) ([], 0))\<rparr> data)
          else loadFiles readJson files data)"
proof -
  have ne: "fst (readMatchups (raw_matchups obj) ([], 0)) \<noteq> [] \<longleftrightarrow>
      (\<exists>m \<in> set (raw_matchups obj). completeMatchup m)" for obj
    by (simp add: readMatchups_nonempty)
  show ?thesis
    by (cases "readJson file")
       (auto simp: heroOfFile_def Let_def ne [symmetric] split: prod.splits)
qed

lemma loadFiles_keys:
  "fst ` set (loadFiles readJson files data) =
     fst ` set data \<union>
     {heroOfFile file obj | file obj.
        file \<in> set files \<and> endsWith file ''.json'' \<and> readJson file = Some obj \<and>
        (\<exists>m \<in> set (raw_matchups obj). completeMatchup m)}"
proof (induction files arbitrary: data)
  case Nil
  show ?case by simp
next
  case (Cons fl files)
  show ?case
    unfolding loadFiles_step
    by (cases "readJson fl") (auto simp: Cons.IH dom_update)
qed

lemma loadFiles_none:
  assumes "\<forall>file \<in> set files. endsWith file ''.json'' \<longrightarrow> readJson file = None"
  shows "loadFiles readJson files data = data"
  using assms
proof (induction files arbitrary: data)
  case Nil
  show ?case by simp
next
  case (Cons fl files)
  then show ?case unfolding loadFiles_step by simp
qed

lemma loadData_closed:
  "loadData readdir readJson = Resolved (loadFiles readJson (listed readdir) [])"
  by (simp add: loadData_def listed_def)

text \<open>
  C4, as the code has it. Neither loader has an error for a patch without data. In
  DraftPage.tsx, when every fetch or parse is rejected the load is fulfilled with the
  empty dataset. A file whose fetch or parse is rejected is left out; when every body
  that does parse is falsy or has the shape of a matchup file, the load is fulfilled with
  a dataset of distinct keys, which are exactly the lower-cased hero names of the parsed
  matchup files, each entry being the map built from such a file. (What happens when a
  body parses to something else is not part of this statement.) In the server's
  \<^verbatim>\<open>loadData\<close> the promise is always fulfilled, the keys are exactly the heroes of the
  \<^verbatim>\<open>.json\<close> files that could be read and hold at least one complete matchup, and when no
  file can be read the dataset is empty.
\<close>

theorem load_omits_failed_files:
  "(\<forall>fetchJson heroSlugs.
      (\<forall>slug \<in> set heroSlugs. fetchJson slug = Rejected) \<longrightarrow>
      loadMatchups fetchJson heroSlugs = Resolved []) \<and>
   (\<forall>fetchJson heroSlugs.
      (\<forall>slug \<in> set heroSlugs. \<forall>j.
         fetchJson slug = Resolved j \<longrightarrow> \<not> truthy j \<or> matchupShaped j) \<longrightarrow>
      (\<exists>d. loadMatchups fetchJson heroSlugs = Resolved d \<and> distinct (map fst d) \<and>
          fst ` set d =
            {toLowerCase h | h slug j.
               slug \<in> set heroSlugs \<and> fetchJson slug = Resolved j \<and>
               getProp j ''hero'' = Some (JStr h)} \<and>
          (\<forall>k m. (k, m) \<in> set d \<longrightarrow>
             (\<exists>slug j h ms.
                slug \<in> set heroSlugs \<and> fetchJson slug = Resolved j \<and>
                getProp j ''hero'' = Some (JStr h) \<and> k = toLowerCase h \<and>
                getProp j ''matchups'' = Some (JArr ms) \<and> buildMap ms Map.empty = Inr m)))) \<and>
   (\<forall>readdir readJson.
      \<exists>d. loadData readdir readJson = Resolved d \<and>
          fst ` set d =
            {heroOfFile file obj | file obj.
               file \<in> set (listed readdir) \<and> endsWith file ''.json'' \<and>
               readJson file = Some obj \<and> (\<exists>m \<in> set (raw_matchups obj). completeMatchup m)}) \<and>
   (\<forall>readdir readJson.
      (\<forall>file \<in> set (listed readdir). endsWith file ''.json'' \<longrightarrow> readJson file = None) \<longrightarrow>
      loadData readdir readJson = Resolved [])"
proof (intro conjI allI impI)
  fix fetchJson :: "string \<Rightarrow> json promise" and heroSlugs
  assume "\<forall>slug \<in> set heroSlugs. fetchJson slug = Rejected"
  then show "loadMatchups fetchJson heroSlugs = Resolved []" by (rule loadMatchups_none)
next
  fix fetchJson :: "string \<Rightarrow> json promise" and heroSlugs
  assume "\<forall>slug \<in> set heroSlugs. \<forall>j.
         fetchJson slug = Resolved j \<longrightarrow> \<not> truthy j \<or> matchupShaped j"
  then show "\<exists>d. loadMatchups fetchJson heroSlugs = Resolved d \<and> distinct (map fst d) \<and>
          fst ` set d =
            {toLowerCase h | h slug j.
               slug \<in> set heroSlugs \<and> fetchJson slug = Resolved j \<and>
               getProp j ''hero'' = Some (JStr h)} \<and>
          (\<forall>k m. (k, m) \<in> set d \<longrightarrow>
             (\<exists>slug j h ms.
                slug \<in> set heroSlugs \<and> fetchJson slug = Resolved j \<and>
                getProp j ''hero'' = Some (JStr h) \<and> k = toLowerCase h \<and>
                getProp j ''matchups'' = Some (JArr ms) \<and> buildMap ms Map.empty = Inr m))"
    by (rule loadMatchups_ok)
next
  fix readdir and readJson :: "string \<Rightarrow> RawFile option"
  show "\<exists>d. loadData readdir readJson = Resolved d \<and>
          fst ` set d =
            {heroOfFile file obj | file obj.
               file \<in> set (listed readdir) \<and> endsWith file ''.json'' \<and>
               readJson file = Some obj \<and> (\<exists>m \<in> set (raw_matchups obj). completeMatchup m)}"
    by (simp add: loadData_closed loadFiles_keys)
next
  fix readdir and readJson :: "string \<Rightarrow> RawFile option"
  assume "\<forall>file \<in> set (listed readdir). endsWith file ''.json'' \<longrightarrow> readJson file = None"
  then show "loadData readdir readJson = Resolved []"
    by (simp add: loadData_closed loadFiles_none)
qed

lemma toLowerCase_Axe: "toLowerCase ''Axe'' = ''axe''" by code_simp
lemma toLowerCase_Zeus: "toLowerCase ''Zeus'' = ''zeus''" by code_simp
lemma toLowerCase_axe: "toLowerCase ''axe'' = ''axe''" by code_simp

text \<open>
  When no hero file of the patch can be fetched, read or parsed, both loaders are
  fulfilled with the empty dataset: neither is rejected, and there is no error value.
\<close>

theorem no_file_is_not_a_failure:
  "loadMatchups noFile [''axe'', ''zeus''] = Resolved [] \<and>
   loadMatchups noFile [''axe'', ''zeus''] \<noteq> Rejected \<and>
   loadData (Resolved [''axe.json'', ''metadata.json'']) noJson = Resolved [] \<and>
   loadData Rejected noJson = Resolved []"
  by (simp add: loadMatchups_def noFile_def catchNull_def thenP_def loadData_def endsWith_def
      noJson_def)

lemma example_onlyAxe:
  "loadMatchups onlyAxe [''axe'', ''zeus''] = Resolved [(''axe'', [''zeus'' \<mapsto> JNum 48.5])]"
  by (simp add: loadMatchups_def onlyAxe_def axeFile_def catchNull_def thenP_def
      toLowerCase_Axe toLowerCase_Zeus)

text \<open>
  A body that parses but is not a matchup file: the empty object has no \<^verbatim>\<open>matchups\<close> to
  iterate, the callback throws, and the load is rejected although the file of axe is
  good.
\<close>

lemma example_malformed:
  "loadMatchups axeAndEmptyObject [''axe'', ''zeus''] = Rejected"
  by (simp add: loadMatchups_def axeAndEmptyObject_def axeFile_def catchNull_def thenP_def
      toLowerCase_Axe toLowerCase_Zeus)

theorem load_omits_failed_files_witness:
  "loadMatchups noFile [''axe'', ''zeus''] = Resolved [] \<and>
   matchupShaped axeFile \<and>
   (\<exists>d. loadMatchups onlyAxe [''axe'', ''zeus''] = Resolved d \<and> fst ` set d = {''axe''}) \<and>
   (\<exists>d. loadData (Resolved [''axe.json'', ''notes.txt'', ''zeus.json'']) onlyAxeJson = Resolved d \<and>
        fst ` set d = {''axe''}) \<and>
   loadData (Resolved [''axe.json'', ''notes.txt'', ''zeus.json'']) noJson = Resolved []"
proof -
  let ?S = "[''axe'', ''zeus'']"
  let ?F = "Resolved [''axe.json'', ''notes.txt'', ''zeus.json'']"
  have h1: "\<forall>slug \<in> set ?S. noFile slug = Rejected"
    by (simp add: noFile_def)
  have sh: "matchupShaped axeFile"
    by (simp add: matchupShaped_def axeFile_def hasOpponent_def)
  then have h2: "\<forall>slug \<in> set ?S. \<forall>j. onlyAxe slug = Resolved j \<longrightarrow> \<not> truthy j \<or> matchupShaped j"
    by (simp add: onlyAxe_def)
  have k2: "{toLowerCase h | h slug j.
               slug \<in> set ?S \<and> onlyAxe slug = Resolved j \<and> getProp j ''hero'' = Some (JStr h)} = {''axe''}"
    by (auto simp: onlyAxe_def axeFile_def toLowerCase_Axe)
  have e1: "endsWith ''axe.json'' ''.json''" "\<not> endsWith ''notes.txt'' ''.json''"
    by (simp_all add: endsWith_def)
  have hf: "heroOfFile ''axe.json'' obj = ''axe''" if "raw_hero obj = None" for obj
    using that by (simp add: heroOfFile_def basename_def endsWith_def toLowerCase_axe)
  have cm: "completeMatchup \<lparr>raw_opponent = Some ''Zeus'', raw_winrate = Some 48, raw_matches = Some 1200\<rparr>"
    by (simp add: completeMatchup_def toLowerCase_Zeus)
  have k3: "{heroOfFile file obj | file obj.
               file \<in> set (listed ?F) \<and> endsWith file ''.json'' \<and>
               onlyAxeJson file = Some obj \<and> (\<exists>m \<in> set (raw_matchups obj). completeMatchup m)} = {''axe''}"
    by (auto simp: listed_def onlyAxeJson_def e1 hf cm split: if_splits)
  have h4: "\<forall>file \<in> set (listed ?F). endsWith file ''.json'' \<longrightarrow> noJson file = None"
    by (simp add: noJson_def)
  from load_omits_failed_files [THEN conjunct1, rule_format, of ?S noFile] h1
  have c1: "loadMatchups noFile ?S = Resolved []" by simp
  from load_omits_failed_files [THEN conjunct2, THEN conjunct1, rule_format, of ?S onlyAxe] h2
  have "\<exists>d. loadMatchups onlyAxe ?S = Resolved d \<and> distinct (map fst d) \<and>
          fst ` set d =
            {toLowerCase h | h slug j.
               slug \<in> set ?S \<and> onlyAxe slug = Resolved j \<and> getProp j ''hero'' = Some (JStr h)} \<and>
          (\<forall>k m. (k, m) \<in> set d \<longrightarrow>
             (\<exists>slug j h ms.
                slug \<in> set ?S \<and> onlyAxe slug = Resolved j \<and>
                getProp j ''hero'' = Some (JStr h) \<and> k = toLowerCase h \<and>
                getProp j ''matchups'' = Some (JArr ms) \<and> buildMap ms Map.empty = Inr m))"
    by blast
  with k2 have c2: "\<exists>d. loadMatchups onlyAxe ?S = Resolved d \<and> fst ` set d = {''axe''}"
    by auto
  from load_omits_failed_files [THEN conjunct2, THEN conjunct2, THEN conjunct1, rule_format,
        of ?F onlyAxeJson]
  have "\<exists>d. loadData ?F onlyAxeJson = Resolved d \<and>
          fst ` set d =
            {heroOfFile file obj | file obj.
               file \<in> set (listed ?F) \<and> endsWith file ''.json'' \<and>
               onlyAxeJson file = Some obj \<and> (\<exists>m \<in> set (raw_matchups obj). completeMatchup m)}" .
  with k3 have c3: "\<exists>d. loadData ?F onlyAxeJson = Resolved d \<and> fst ` set d = {''axe''}"
    by auto
  from load_omits_failed_files [THEN conjunct2, THEN conjunct2, THEN conjunct2, rule_format,
        of ?F noJson] h4
  have c4: "loadData ?F noJson = Resolved []" by simp
  from c1 sh c2 c3 c4 show ?thesis by blast
qed

end
